theory Spec2Isabelle
  imports Main "HOL-Library.AList" "HOL-Library.Char_ord" "HOL-Library.List_Lexorder"
    "HOL-Library.Multiset"
begin

section \<open>Python values and errors\<close>

text \<open>
  The adapter in \<^verbatim>\<open>maskrcnn_benchmark/data/datasets/voc.py\<close> is Python. Every exception
  that the interpreter can raise on the paths modelled here is a value of \<open>error\<close>; a
  computation that may raise returns \<open>error + 'a\<close>, with \<open>Inl\<close> for the exception.
  \<open>ValueError_int\<close> is the \<^verbatim>\<open>ValueError\<close> of \<^verbatim>\<open>int()\<close> on a bad literal,
  \<open>ValueError_index\<close> the \<^verbatim>\<open>ValueError\<close> of \<^verbatim>\<open>tuple.index\<close> on a value that is
  not in the tuple, \<open>ValueError_tensor\<close> the failure of \<^verbatim>\<open>torch.as_tensor\<close> (a ragged
  list, or an integer outside the 64-bit range), \<open>RuntimeError_reshape\<close> the failure of
  \<^verbatim>\<open>reshape(-1, 4)\<close> on an element count that is not a multiple of four, and
  \<open>ValueError_boxlist\<close> the rejection of a badly shaped tensor by the box structure.
\<close>

datatype error =
    FileNotFoundError
  | KeyError string
  | KeyError_label nat
  | TypeError
  | AttributeError
  | ValueError_int
  | ValueError_index
  | IndexError
  | ValueError_tensor
  | RuntimeError_reshape
  | ValueError_boxlist

definition bind :: "error + 'a \<Rightarrow> ('a \<Rightarrow> error + 'b) \<Rightarrow> error + 'b" where
  "bind m f = (case m of Inl e \<Rightarrow> Inl e | Inr v \<Rightarrow> f v)"

text \<open>
  The values the recursive parser builds: the text of a leaf (\<^verbatim>\<open>None\<close> for an element
  without text), a dictionary, or a list. A dictionary is an association list with
  distinct keys in insertion order, as a Python \<^verbatim>\<open>dict\<close> keeps them; assignment
  \<^verbatim>\<open>d[k] = v\<close> is \<open>AList.update k v d\<close>.
\<close>

datatype pyval =
    Str string
  | NoneV
  | Dict "(string \<times> pyval) list"
  | List "pyval list"

text \<open>
  \<^verbatim>\<open>d[k]\<close> on a dictionary; \<open>mk\<close> builds the \<^verbatim>\<open>KeyError\<close> of a missing key.
\<close>

definition dict_getitem :: "('k \<Rightarrow> error) \<Rightarrow> ('k \<times> 'v) list \<Rightarrow> 'k \<Rightarrow> error + 'v" where
  "dict_getitem mk d k = (case map_of d k of None \<Rightarrow> Inl (mk k) | Some v \<Rightarrow> Inr v)"

text \<open>\<^verbatim>\<open>v[k]\<close> on a parsed value, for a string key \<open>k\<close>.\<close>

fun subscript :: "pyval \<Rightarrow> string \<Rightarrow> error + pyval" where
  "subscript (Dict d) k = dict_getitem KeyError d k"
| "subscript (Str s) k = Inl TypeError"
| "subscript NoneV k = Inl TypeError"
| "subscript (List vs) k = Inl TypeError"

text \<open>\<^verbatim>\<open>l.append(v)\<close>, returning the list after the call.\<close>

fun append_py :: "pyval \<Rightarrow> pyval \<Rightarrow> error + pyval" where
  "append_py (List vs) v = Inr (List (vs @ [v]))"
| "append_py (Str s) v = Inl AttributeError"
| "append_py NoneV v = Inl AttributeError"
| "append_py (Dict d) v = Inl AttributeError"

text \<open>\<^verbatim>\<open>for obj in v\<close>: the sequence of values the loop sees.\<close>

fun iterate :: "pyval \<Rightarrow> error + pyval list" where
  "iterate (List vs) = Inr vs"
| "iterate (Dict d) = Inr (map (\<lambda>kv. Str (fst kv)) d)"
| "iterate (Str s) = Inr (map (\<lambda>c. Str [c]) s)"
| "iterate NoneV = Inl TypeError"

section \<open>The recursive XML parser\<close>

text \<open>
  An element of the tree that \<^verbatim>\<open>lxml.etree.fromstring\<close> returns: its tag, its text
  (\<^verbatim>\<open>None\<close> when there is none) and its children in document order. \<^verbatim>\<open>len(xml)\<close> is
  the number of children. The trees are trees of elements; comments and processing
  instructions, which lxml also lists among the children, are not part of the model.
\<close>

datatype xml = Element (tag: string) (text_of: "string option") (children: "xml list")

definition text_value :: "string option \<Rightarrow> pyval" where
  "text_value t = (case t of None \<Rightarrow> NoneV | Some s \<Rightarrow> Str s)"

text \<open>
  One pass of the loop body of \<^verbatim>\<open>_recursive_parse_xml_to_dict\<close> (lines 108 to 113):
  \<open>result\<close> is the dictionary built so far, \<open>ctag\<close> is \<^verbatim>\<open>child.tag\<close> and
  \<open>child_result\<close> the parsed child.
\<close>

definition add_child :: "(string \<times> pyval) list \<Rightarrow> string \<Rightarrow> pyval \<Rightarrow> error + (string \<times> pyval) list" where
  "add_child result ctag child_result =
     (if ctag \<noteq> ''object'' then
        bind (subscript child_result ctag) (\<lambda>v. Inr (AList.update ctag v result))
      else
        let result1 = (if ctag \<notin> set (map fst result)
                       then AList.update ctag (List []) result else result)
        in bind (subscript (Dict result1) ctag) (\<lambda>l.
           bind (subscript child_result ctag) (\<lambda>v.
           bind (append_py l v) (\<lambda>l'. Inr (AList.update ctag l' result1)))))"

text \<open>
  \<^verbatim>\<open>_recursive_parse_xml_to_dict\<close>; \<open>parse_children result cs\<close> is the \<^verbatim>\<open>for\<close> loop
  over the remaining children \<open>cs\<close> with the dictionary \<open>result\<close> built so far.
\<close>

fun recursive_parse_xml_to_dict :: "xml \<Rightarrow> error + pyval"
  and parse_children :: "(string \<times> pyval) list \<Rightarrow> xml list \<Rightarrow> error + (string \<times> pyval) list" where
  "recursive_parse_xml_to_dict (Element t txt cs) =
     (if length cs = 0 then Inr (Dict [(t, text_value txt)])
      else bind (parse_children [] cs) (\<lambda>result. Inr (Dict [(t, Dict result)])))"
| "parse_children result [] = Inr result"
| "parse_children result (child # rest) =
     bind (recursive_parse_xml_to_dict child) (\<lambda>child_result.
     bind (add_child result (tag child) child_result) (\<lambda>result'.
     parse_children result' rest))"

section \<open>Builtins used by the constructor\<close>

text \<open>
  Strings are lists of characters with code points below 256. \<^verbatim>\<open>str.strip()\<close>
  removes the characters for which \<^verbatim>\<open>str.isspace\<close> holds from both ends.
\<close>

definition isspace :: "char \<Rightarrow> bool" where
  "isspace c = ((of_char c :: nat) \<in> {9, 10, 11, 12, 13, 28, 29, 30, 31, 32, 133, 160})"

definition strip_with :: "(char \<Rightarrow> bool) \<Rightarrow> string \<Rightarrow> string" where
  "strip_with p s = rev (dropWhile p (rev (dropWhile p s)))"

definition strip :: "string \<Rightarrow> string" where
  "strip s = strip_with isspace s"

text \<open>
  \<^verbatim>\<open>int(s)\<close> on a string: optional surrounding whitespace, an optional sign, then
  decimal digits, where single underscores may separate digits. The whitespace that
  \<^verbatim>\<open>int\<close> skips is tab, line feed, vertical tab, form feed, carriage return, space,
  and the code points 133 and 160.
\<close>

definition int_space :: "char \<Rightarrow> bool" where
  "int_space c = ((of_char c :: nat) \<in> {9, 10, 11, 12, 13, 32, 133, 160})"

definition is_digit :: "char \<Rightarrow> bool" where
  "is_digit c = (48 \<le> (of_char c :: nat) \<and> (of_char c :: nat) \<le> 57)"

definition digit_value :: "char \<Rightarrow> int" where
  "digit_value c = int (of_char c) - 48"

fun int_digits :: "int \<Rightarrow> string \<Rightarrow> int option" where
  "int_digits acc [] = Some acc"
| "int_digits acc [c] = (if is_digit c then Some (10 * acc + digit_value c) else None)"
| "int_digits acc (c # d # ds) =
     (if is_digit c then int_digits (10 * acc + digit_value c) (d # ds)
      else if c = CHR ''_'' \<and> is_digit d then int_digits (10 * acc + digit_value d) ds
      else None)"

definition int_literal :: "string \<Rightarrow> int option" where
  "int_literal s = (case s of [] \<Rightarrow> None
     | c # cs \<Rightarrow> if is_digit c then int_digits (digit_value c) cs else None)"

definition int_of_string :: "string \<Rightarrow> error + int" where
  "int_of_string s =
     (let t = strip_with int_space s;
          sign_body = (case t of [] \<Rightarrow> (1, [])
             | c # cs \<Rightarrow> if c = CHR ''-'' then (- 1, cs)
                        else if c = CHR ''+'' then (1, cs) else (1, t))
      in case int_literal (snd sign_body) of
           None \<Rightarrow> Inl ValueError_int
         | Some n \<Rightarrow> Inr (fst sign_body * n))"

text \<open>\<^verbatim>\<open>int(v)\<close> on a parsed value: only a string is accepted.\<close>

fun py_int :: "pyval \<Rightarrow> error + int" where
  "py_int (Str s) = int_of_string s"
| "py_int NoneV = Inl TypeError"
| "py_int (Dict d) = Inl TypeError"
| "py_int (List vs) = Inl TypeError"

text \<open>
  \<^verbatim>\<open>names.index(v)\<close> on a tuple of strings: the first position whose entry equals
  \<open>v\<close>; a value that is not a string equals none of them.
\<close>

fun tuple_index :: "string list \<Rightarrow> pyval \<Rightarrow> error + nat" where
  "tuple_index [] v = Inl ValueError_index"
| "tuple_index (n # ns) v =
     (if v = Str n then Inr 0 else bind (tuple_index ns v) (\<lambda>i. Inr (Suc i)))"

text \<open>\<^verbatim>\<open>xs[i]\<close> on a list: a negative index counts from the end.\<close>

definition list_getitem :: "'a list \<Rightarrow> int \<Rightarrow> error + 'a" where
  "list_getitem xs i =
     (if 0 \<le> i \<and> i < int (length xs) then Inr (xs ! nat i)
      else if i < 0 \<and> - int (length xs) \<le> i then Inr (xs ! nat (int (length xs) + i))
      else Inl IndexError)"

text \<open>
  \<^verbatim>\<open>[f(x) for x in xs if c(x)]\<close>: for each element the condition is evaluated first,
  the element expression only when the condition holds; the first exception ends the
  comprehension. \<open>for_each\<close> is the comprehension without a condition.
\<close>

fun comprehension :: "('a \<Rightarrow> error + bool) \<Rightarrow> ('a \<Rightarrow> error + 'b) \<Rightarrow> 'a list \<Rightarrow> error + 'b list" where
  "comprehension c f [] = Inr []"
| "comprehension c f (x # xs) =
     bind (c x) (\<lambda>keep.
       if keep then bind (f x) (\<lambda>y. bind (comprehension c f xs) (\<lambda>ys. Inr (y # ys)))
       else comprehension c f xs)"

fun for_each :: "('a \<Rightarrow> error + 'b) \<Rightarrow> 'a list \<Rightarrow> error + 'b list" where
  "for_each f [] = Inr []"
| "for_each f (x # xs) = bind (f x) (\<lambda>y. bind (for_each f xs) (\<lambda>ys. Inr (y # ys)))"

text \<open>
  \<^verbatim>\<open>{k: v for ...}\<close>: the pairs are stored in order, a later pair with the same key
  replaces the value of the earlier one.
\<close>

definition dict_of :: "('k \<times> 'v) list \<Rightarrow> ('k \<times> 'v) list" where
  "dict_of kvs = foldl (\<lambda>d kv. AList.update (fst kv) (snd kv) d) [] kvs"

text \<open>
  A text file opened with the default newline handling: \<^verbatim>\<open>\r\n\<close> and \<^verbatim>\<open>\r\<close> are
  read as \<^verbatim>\<open>\n\<close>; \<^verbatim>\<open>readlines()\<close> cuts the text after each \<^verbatim>\<open>\n\<close> and keeps it.
\<close>

fun universal_newlines :: "string \<Rightarrow> string" where
  "universal_newlines [] = []"
| "universal_newlines [c] = (if c = CHR 0x0D then [CHR 0x0A] else [c])"
| "universal_newlines (c # d # ds) =
     (if c = CHR 0x0D \<and> d = CHR 0x0A then CHR 0x0A # universal_newlines ds
      else if c = CHR 0x0D then CHR 0x0A # universal_newlines (d # ds)
      else c # universal_newlines (d # ds))"

fun split_lines :: "string \<Rightarrow> string \<Rightarrow> string list" where
  "split_lines cur [] = (if cur = [] then [] else [cur])"
| "split_lines cur (c # cs) =
     (if c = CHR 0x0A then (cur @ [c]) # split_lines [] cs else split_lines (cur @ [c]) cs)"

definition readlines :: "string \<Rightarrow> string list" where
  "readlines content = split_lines [] (universal_newlines content)"

section \<open>The dataset\<close>

definition VOC_BBOX_LABEL_NAMES :: "string list" where
  "VOC_BBOX_LABEL_NAMES =
     [''aeroplane'', ''bicycle'', ''bird'', ''boat'', ''bottle'', ''bus'', ''car'', ''cat'',
      ''chair'', ''cow'', ''diningtable'', ''dog'', ''horse'', ''motorbike'', ''person'',
      ''pottedplant'', ''sheep'', ''sofa'', ''train'', ''tvmonitor'']"

text \<open>
  The record stored in \<^verbatim>\<open>self.anns\<close> for one identifier (lines 55 to 62); the field
  \<^verbatim>\<open>'size'\<close> is \<open>size_ann\<close> here.
\<close>

record annotation =
  boxes :: "int list list"
  labels :: "nat list"
  size_ann :: pyval

text \<open>
  The files under the data directory, as far as the adapter reads them: the text of the
  split file \<^verbatim>\<open>ImageSets/Main/<split>.txt\<close>, and per identifier the tree that
  \<^verbatim>\<open>etree.fromstring\<close> returns for \<^verbatim>\<open>Annotations/<id>.xml\<close> and the image that
  \<^verbatim>\<open>Image.open(...).convert('RGB')\<close> returns for \<^verbatim>\<open>JPEGImages/<id>.jpg\<close>. \<open>None\<close> is a
  file that is not there; files that are there and cannot be decoded are not part of
  the model. Of an image only its size (width, height) is kept.
\<close>

record image =
  img_size :: "int \<times> int"

record filesystem =
  split_file :: "string option"
  annotation_files :: "string \<Rightarrow> xml option"
  image_files :: "string \<Rightarrow> image option"

definition open_file :: "'a option \<Rightarrow> error + 'a" where
  "open_file f = (case f of None \<Rightarrow> Inl FileNotFoundError | Some c \<Rightarrow> Inr c)"

text \<open>The condition and the two element expressions of the comprehensions (lines 56 to 60).\<close>

definition difficult_of :: "pyval \<Rightarrow> error + int" where
  "difficult_of obj = bind (subscript obj ''difficult'') (\<lambda>d. py_int d)"

definition not_difficult :: "pyval \<Rightarrow> error + bool" where
  "not_difficult obj = bind (difficult_of obj) (\<lambda>n. Inr (n = 0))"

definition coordinate :: "pyval \<Rightarrow> string \<Rightarrow> error + int" where
  "coordinate obj k =
     bind (subscript obj ''bndbox'') (\<lambda>b. bind (subscript b k) (\<lambda>c. py_int c))"

definition box_of :: "pyval \<Rightarrow> error + int list" where
  "box_of obj =
     bind (coordinate obj ''xmin'') (\<lambda>x1.
     bind (coordinate obj ''ymin'') (\<lambda>y1.
     bind (coordinate obj ''xmax'') (\<lambda>x2.
     bind (coordinate obj ''ymax'') (\<lambda>y2. Inr [x1, y1, x2, y2]))))"

definition label_of :: "pyval \<Rightarrow> error + nat" where
  "label_of obj = bind (subscript obj ''name'') (\<lambda>n. tuple_index VOC_BBOX_LABEL_NAMES n)"

text \<open>
  Lines 54 to 62: the record built from the tree of one annotation file. \<open>data\<close> is
  \<^verbatim>\<open>self._recursive_parse_xml_to_dict(xml)['annotation']\<close>; the three dictionary entries
  are evaluated in the order written, \<^verbatim>\<open>data['object']\<close> once for each comprehension.
\<close>

definition record_of_data :: "pyval \<Rightarrow> error + annotation" where
  "record_of_data data =
     bind (subscript data ''object'') (\<lambda>objects.
     bind (iterate objects) (\<lambda>objs.
     bind (comprehension not_difficult box_of objs) (\<lambda>bs.
     bind (subscript data ''object'') (\<lambda>objects'.
     bind (iterate objects') (\<lambda>objs'.
     bind (comprehension not_difficult label_of objs') (\<lambda>ls.
     bind (subscript data ''size'') (\<lambda>sz.
     Inr \<lparr>boxes = bs, labels = ls, size_ann = sz\<rparr>)))))))"

definition annotation_record :: "xml \<Rightarrow> error + annotation" where
  "annotation_record x =
     bind (recursive_parse_xml_to_dict x) (\<lambda>parsed.
     bind (subscript parsed ''annotation'') (\<lambda>data. record_of_data data))"

text \<open>The loop of lines 50 to 62 over the remaining identifiers.\<close>

fun build_anns :: "filesystem \<Rightarrow> (string \<times> annotation) list \<Rightarrow> string list
    \<Rightarrow> error + (string \<times> annotation) list" where
  "build_anns fs anns [] = Inr anns"
| "build_anns fs anns (img_id # rest) =
     bind (open_file (annotation_files fs img_id)) (\<lambda>x.
     bind (annotation_record x) (\<lambda>a.
     build_anns fs (AList.update img_id a anns) rest))"

section \<open>Tensors and the box structure\<close>

text \<open>
  An integer tensor: its shape and its elements in row-major order.
  \<^verbatim>\<open>torch.as_tensor\<close> of a list of lists of integers has shape \<open>[0]\<close> for the empty list
  and \<open>[rows, columns]\<close> otherwise; it fails on rows of different lengths and on an
  integer outside the 64-bit range. \<^verbatim>\<open>reshape(-1, 4)\<close> keeps the elements and gives
  them the shape \<open>[n div 4, 4]\<close>; it fails when the number of elements is not a multiple
  of four.
\<close>

record tensor =
  shape :: "nat list"
  elems :: "int list"

definition as_tensor :: "int list list \<Rightarrow> error + tensor" where
  "as_tensor rows =
     (case rows of
        [] \<Rightarrow> Inr \<lparr>shape = [0], elems = []\<rparr>
      | r # rs \<Rightarrow>
          if (\<forall>r' \<in> set rs. length r' = length r)
             \<and> (\<forall>e \<in> set (concat rows). - (2 ^ 63) \<le> e \<and> e < 2 ^ 63)
          then Inr \<lparr>shape = [length rows, length r], elems = concat rows\<rparr>
          else Inl ValueError_tensor)"

definition reshape_rows_of_4 :: "tensor \<Rightarrow> error + tensor" where
  "reshape_rows_of_4 t =
     (if length (elems t) mod 4 = 0
      then Inr \<lparr>shape = [length (elems t) div 4, 4], elems = elems t\<rparr>
      else Inl RuntimeError_reshape)"

datatype mode = XYXY | XYWH

record boxlist =
  bbox :: tensor
  size_bl :: "int \<times> int"
  mode_bl :: mode
  extra_fields :: "(string \<times> nat list) list"

text \<open>
  Modelled from the spec: the class \<^verbatim>\<open>BoxList\<close> of
  \<^verbatim>\<open>maskrcnn_benchmark.structures.bounding_box\<close> is not among the sources. The
  specification (section 4.2, steps 4 to 6) describes it as a structure that holds boxes
  with an image size and a coordinate mode, accepts named auxiliary fields, converts
  between coordinate modes, and clips to the image bounds with optional removal of the
  boxes that become empty. A validly shaped box tensor has rows of width four, also
  when it has no rows; the constructor rejects any other shape.
\<close>

definition BoxList :: "tensor \<Rightarrow> int \<times> int \<Rightarrow> mode \<Rightarrow> error + boxlist" where
  "BoxList t sz m =
     (if length (shape t) = 2 \<and> shape t ! 1 = 4
      then Inr \<lparr>bbox = t, size_bl = sz, mode_bl = m, extra_fields = []\<rparr>
      else Inl ValueError_boxlist)"

text \<open>
  Modelled from the spec: the rows of a box tensor, four elements each, and the tensor
  of a list of such rows.
\<close>

fun rows_of :: "int list \<Rightarrow> int list list" where
  "rows_of (a # b # c # d # rest) = [a, b, c, d] # rows_of rest"
| "rows_of rest = []"

definition tensor_of_rows :: "int list list \<Rightarrow> tensor" where
  "tensor_of_rows rs = \<lparr>shape = [length rs, 4], elems = concat rs\<rparr>"

text \<open>
  Modelled from the spec: conversion between corner mode (xmin, ymin, xmax, ymax) and
  corner-and-extent mode (xmin, ymin, width, height), with pixel-inclusive extents. A
  conversion to the mode the structure already has returns it unchanged.
\<close>

definition convert_row :: "mode \<Rightarrow> int list \<Rightarrow> int list" where
  "convert_row m r =
     (case r of
        [a, b, c, d] \<Rightarrow>
          (if m = XYWH then [a, b, c - a + 1, d - b + 1]
           else [a, b, a + max 0 (c - 1), b + max 0 (d - 1)])
      | _ \<Rightarrow> r)"

definition convert :: "boxlist \<Rightarrow> mode \<Rightarrow> boxlist" where
  "convert bl m =
     (if m = mode_bl bl then bl
      else bl\<lparr>bbox := tensor_of_rows (map (convert_row m) (rows_of (elems (bbox bl)))),
              mode_bl := m\<rparr>)"

text \<open>Modelled from the spec: attaching a named auxiliary field.\<close>

definition add_field :: "boxlist \<Rightarrow> string \<Rightarrow> nat list \<Rightarrow> boxlist" where
  "add_field bl name v = bl\<lparr>extra_fields := AList.update name v (extra_fields bl)\<rparr>"

text \<open>
  Modelled from the spec: clipping to the pixel bounds of the image (columns
  \<open>0 .. width - 1\<close>, rows \<open>0 .. height - 1\<close>) and, when asked, discarding every box that
  is empty after clipping together with its entry in each auxiliary field.
\<close>

definition clamp :: "int \<Rightarrow> int \<Rightarrow> int \<Rightarrow> int" where
  "clamp lo hi x = min (max x lo) hi"

definition clip_row :: "int \<times> int \<Rightarrow> int list \<Rightarrow> int list" where
  "clip_row sz r =
     (case r of
        [a, b, c, d] \<Rightarrow>
          [clamp 0 (fst sz - 1) a, clamp 0 (snd sz - 1) b,
           clamp 0 (fst sz - 1) c, clamp 0 (snd sz - 1) d]
      | _ \<Rightarrow> r)"

definition nonempty_row :: "int list \<Rightarrow> bool" where
  "nonempty_row r = (case r of [a, b, c, d] \<Rightarrow> d > b \<and> c > a | _ \<Rightarrow> False)"

definition select :: "bool list \<Rightarrow> 'a list \<Rightarrow> 'a list" where
  "select keep xs = map snd (filter fst (zip keep xs))"

definition clip_to_image :: "boxlist \<Rightarrow> bool \<Rightarrow> boxlist" where
  "clip_to_image bl remove_empty =
     (let clipped = map (clip_row (size_bl bl)) (rows_of (elems (bbox bl)));
          keep = map nonempty_row clipped
      in if remove_empty
         then bl\<lparr>bbox := tensor_of_rows (select keep clipped),
                 extra_fields := map (\<lambda>kv. (fst kv, select keep (snd kv))) (extra_fields bl)\<rparr>
         else bl\<lparr>bbox := tensor_of_rows clipped\<rparr>)"

section \<open>Construction and accessors\<close>

record dataset =
  ids :: "string list"
  json_category_id_to_contiguous_id :: "(nat \<times> nat) list"
  contiguous_category_id_to_json_id :: "(nat \<times> nat) list"
  anns :: "(string \<times> annotation) list"
  id_to_img_map :: "(nat \<times> string) list"
  transforms :: "(image \<times> boxlist \<Rightarrow> image \<times> boxlist) option"

text \<open>
  \<^verbatim>\<open>PascalVOC.__init__\<close> (lines 33 to 65). The data directory and the split name
  select the files of \<open>fs\<close>; class indices and contiguous ids are natural numbers.
\<close>

definition init :: "filesystem \<Rightarrow> (image \<times> boxlist \<Rightarrow> image \<times> boxlist) option \<Rightarrow> error + dataset" where
  "init fs tr =
     bind (open_file (split_file fs)) (\<lambda>content.
       let ids' = sort (map strip (readlines content));
           j2c = dict_of (map (\<lambda>iv. (snd iv, fst iv + 1)) (enumerate 0 [0..<20]));
           c2j = dict_of (map (\<lambda>kv. (snd kv, fst kv)) j2c)
       in bind (build_anns fs [] ids') (\<lambda>anns'.
            Inr \<lparr>ids = ids',
                 json_category_id_to_contiguous_id = j2c,
                 contiguous_category_id_to_json_id = c2j,
                 anns = anns',
                 id_to_img_map = dict_of (enumerate 0 ids'),
                 transforms = tr\<rparr>))"

text \<open>\<^verbatim>\<open>__len__\<close>.\<close>

definition len :: "dataset \<Rightarrow> nat" where
  "len ds = length (ids ds)"

text \<open>Lines 84 and 85: the configured transform, if there is one, replaces the pair.\<close>

definition apply_transforms :: "(image \<times> boxlist \<Rightarrow> image \<times> boxlist) option
    \<Rightarrow> image \<times> boxlist \<Rightarrow> image \<times> boxlist" where
  "apply_transforms tr p = (case tr of None \<Rightarrow> p | Some f \<Rightarrow> f p)"

text \<open>
  Lines 74 to 87 of \<^verbatim>\<open>__getitem__\<close>: the sample built from the opened image and the
  annotation record of the identifier.
\<close>

definition make_sample :: "dataset \<Rightarrow> image \<Rightarrow> annotation \<Rightarrow> int \<Rightarrow> error + image \<times> boxlist \<times> int" where
  "make_sample ds img ann index =
     bind (as_tensor (boxes ann)) (\<lambda>t.
     bind (reshape_rows_of_4 t) (\<lambda>boxes'.
     bind (BoxList boxes' (img_size img) XYXY) (\<lambda>bl.
     let target = convert bl XYXY
     in bind (for_each (dict_getitem KeyError_label (json_category_id_to_contiguous_id ds))
               (labels ann)) (\<lambda>classes.
        let target1 = add_field target ''labels'' classes;
            target2 = clip_to_image target1 True;
            out = apply_transforms (transforms ds) (img, target2)
        in Inr (fst out, snd out, index)))))"

text \<open>\<^verbatim>\<open>__getitem__\<close> (lines 70 to 87).\<close>

definition getitem :: "filesystem \<Rightarrow> dataset \<Rightarrow> int \<Rightarrow> error + image \<times> boxlist \<times> int" where
  "getitem fs ds index =
     bind (list_getitem (ids ds) index) (\<lambda>img_id.
     bind (open_file (image_files fs img_id)) (\<lambda>img.
     bind (dict_getitem KeyError (anns ds) img_id) (\<lambda>ann.
     make_sample ds img ann index)))"

text \<open>\<^verbatim>\<open>get_img_info\<close> (lines 89 to 92).\<close>

definition get_img_info :: "dataset \<Rightarrow> int \<Rightarrow> error + pyval" where
  "get_img_info ds index =
     bind (list_getitem (ids ds) index) (\<lambda>img_id.
     bind (dict_getitem KeyError (anns ds) img_id) (\<lambda>ann.
     Inr (size_ann ann)))"

section \<open>Notions used in the statements\<close>

text \<open>
  \<^verbatim>\<open>child_result[child.tag]\<close> of lines 107, 109 and 113: the value the parser stores for
  a child.
\<close>

definition child_value :: "xml \<Rightarrow> error + pyval" where
  "child_value child =
     bind (recursive_parse_xml_to_dict child) (\<lambda>child_result.
       subscript child_result (tag child))"

text \<open>
  The entries collected so far under the key \<^verbatim>\<open>'object'\<close>; \<open>None\<close> when the key holds
  something that is not a list.
\<close>

definition object_list :: "(string \<times> pyval) list \<Rightarrow> pyval list option" where
  "object_list result =
     (case map_of result ''object'' of
        None \<Rightarrow> Some []
      | Some (List vs) \<Rightarrow> Some vs
      | Some _ \<Rightarrow> None)"

fun is_List :: "pyval \<Rightarrow> bool" where
  "is_List (List vs) = True"
| "is_List v = False"

text \<open>
  The objects over which the two comprehensions of lines 56 to 60 run for the tree of an
  annotation file: \<^verbatim>\<open>data['object']\<close>, as the \<^verbatim>\<open>for\<close> clause sees it.
\<close>

definition objects_of :: "xml \<Rightarrow> error + pyval list" where
  "objects_of x =
     bind (recursive_parse_xml_to_dict x) (\<lambda>parsed.
     bind (subscript parsed ''annotation'') (\<lambda>data.
     bind (subscript data ''object'') (\<lambda>objects. iterate objects)))"

text \<open>The last element among \<open>cs\<close> that carries the tag \<open>k\<close>.\<close>

definition last_tagged :: "string \<Rightarrow> xml list \<Rightarrow> xml option" where
  "last_tagged k cs = find (\<lambda>c. tag c = k) (rev cs)"

section \<open>Example inputs\<close>

text \<open>
  A small data directory: the split file has the three lines \<open>0002\<close>, \<open>0001\<close> (with
  blanks around it and a Windows line end) and \<open>0002\<close> again; the annotation of
  \<open>0001\<close> has a car that is not difficult and a dog that is, the annotation of \<open>0002\<close>
  has one difficult cat; both images are 100 by 100 pixels.
\<close>

definition leaf :: "string \<Rightarrow> string \<Rightarrow> xml" where
  "leaf t s = Element t (Some s) []"

definition voc_object :: "string \<Rightarrow> string \<Rightarrow> string \<Rightarrow> string \<Rightarrow> string \<Rightarrow> string \<Rightarrow> xml" where
  "voc_object n d x1 y1 x2 y2 =
     Element ''object'' None
       [leaf ''name'' n, leaf ''difficult'' d,
        Element ''bndbox'' None
          [leaf ''xmin'' x1, leaf ''ymin'' y1, leaf ''xmax'' x2, leaf ''ymax'' y2]]"

definition size_100 :: xml where
  "size_100 = Element ''size'' None [leaf ''width'' ''100'', leaf ''height'' ''100'']"

definition children_0001 :: "xml list" where
  "children_0001 =
     [size_100, voc_object ''car'' ''0'' ''10'' ''20'' ''30'' ''40'',
      voc_object ''dog'' ''1'' ''1'' ''2'' ''3'' ''4'']"

definition annotation_0001 :: xml where
  "annotation_0001 = Element ''annotation'' None children_0001"

definition annotation_0002 :: xml where
  "annotation_0002 =
     Element ''annotation'' None [size_100, voc_object ''cat'' ''1'' ''10'' ''20'' ''30'' ''40'']"

definition example_split :: string where
  "example_split =
     ''0002'' @ [CHR 0x0A] @ '' 0001'' @ [CHR 0x09, CHR 0x0D, CHR 0x0A] @ ''0002'' @ [CHR 0x0A]"

definition example_fs :: filesystem where
  "example_fs =
     \<lparr>split_file = Some example_split,
      annotation_files = (\<lambda>i. if i = ''0001'' then Some annotation_0001
                               else if i = ''0002'' then Some annotation_0002 else None),
      image_files = (\<lambda>i. if i = ''0001'' \<or> i = ''0002''
                          then Some \<lparr>img_size = (100, 100)\<rparr> else None)\<rparr>"

text \<open>An annotation with a size and no object entry, alone in its split.\<close>

definition annotation_no_object :: xml where
  "annotation_no_object = Element ''annotation'' None [size_100]"

definition fs_no_object :: filesystem where
  "fs_no_object =
     \<lparr>split_file = Some (''0001'' @ [CHR 0x0A]),
      annotation_files = (\<lambda>i. if i = ''0001'' then Some annotation_no_object else None),
      image_files = (\<lambda>i. if i = ''0001'' then Some \<lparr>img_size = (100, 100)\<rparr> else None)\<rparr>"

text \<open>The dataset that construction without a transform builds from \<open>example_fs\<close>.\<close>

definition example_ds :: dataset where
  "example_ds =
     \<lparr>ids = [''0001'', ''0002'', ''0002''],
      json_category_id_to_contiguous_id =
        [(0, 1), (1, 2), (2, 3), (3, 4), (4, 5), (5, 6), (6, 7), (7, 8), (8, 9), (9, 10),
         (10, 11), (11, 12), (12, 13), (13, 14), (14, 15), (15, 16), (16, 17), (17, 18),
         (18, 19), (19, 20)],
      contiguous_category_id_to_json_id =
        [(1, 0), (2, 1), (3, 2), (4, 3), (5, 4), (6, 5), (7, 6), (8, 7), (9, 8), (10, 9),
         (11, 10), (12, 11), (13, 12), (14, 13), (15, 14), (16, 15), (17, 16), (18, 17),
         (19, 18), (20, 19)],
      anns =
        [(''0001'', \<lparr>boxes = [[10, 20, 30, 40]], labels = [6],
            size_ann = Dict [(''width'', Str ''100''), (''height'', Str ''100'')]\<rparr>),
         (''0002'', \<lparr>boxes = [], labels = [],
            size_ann = Dict [(''width'', Str ''100''), (''height'', Str ''100'')]\<rparr>)],
      id_to_img_map = [(0, ''0001''), (1, ''0002''), (2, ''0002'')],
      transforms = None\<rparr>"







section \<open>The parser: totality and the shape of its result\<close>

lemma bind_Inr [simp]: "bind (Inr v) f = f v"
  by (simp add: bind_def)

lemma bind_Inl [simp]: "bind (Inl e) f = Inl e"
  by (simp add: bind_def)

lemma bind_eq_Inr: "bind m f = Inr y \<longleftrightarrow> (\<exists>v. m = Inr v \<and> f v = Inr y)"
  by (cases m) simp_all

lemma add_child_other:
  "ctag \<noteq> ''object'' \<Longrightarrow> add_child result ctag (Dict [(ctag, v)]) = Inr (AList.update ctag v result)"
  by (simp add: add_child_def dict_getitem_def)

lemma add_child_object:
  assumes "object_list result = Some olds"
  shows "add_child result ''object'' (Dict [(''object'', v)]) =
     Inr (AList.update ''object'' (List (olds @ [v])) result)"
proof (cases "map_of result ''object''")
  case None
  then have "''object'' \<notin> set (map fst result)" by (simp add: map_of_eq_None_iff)
  moreover from None assms have "olds = []" by (simp add: object_list_def)
  ultimately show ?thesis
    by (simp add: add_child_def dict_getitem_def update_conv' del: set_map)
next
  case (Some l)
  with assms have l: "l = List olds"
    by (cases l) (simp_all add: object_list_def)
  from Some have "''object'' \<in> set (map fst result)"
    by (metis map_of_eq_None_iff option.distinct(1) set_map)
  with Some l show ?thesis
    by (simp add: add_child_def dict_getitem_def del: set_map)
qed

lemma object_list_update_object:
  "object_list (AList.update ''object'' (List vs) result) = Some vs"
  by (simp add: object_list_def update_conv')

lemma object_list_update_other:
  "k \<noteq> ''object'' \<Longrightarrow> object_list (AList.update k v result) = object_list result"
  by (simp add: object_list_def update_conv')

lemma parse_total_aux:
  "(\<exists>v. recursive_parse_xml_to_dict x = Inr (Dict [(tag x, v)]) \<and> \<not> is_List v)"
  "object_list result \<noteq> None \<Longrightarrow> (\<exists>r'. parse_children result cs = Inr r' \<and> object_list r' \<noteq> None)"
proof (induction x and result cs rule: recursive_parse_xml_to_dict_parse_children.induct)
  case (1 t tx cs)
  show ?case
  proof (cases "length cs = 0")
    case True
    then show ?thesis by (cases tx) (simp_all add: text_value_def)
  next
    case False
    have "object_list [] \<noteq> None" by (simp add: object_list_def)
    with 1[OF False] obtain r' where "parse_children [] cs = Inr r'" by blast
    with False show ?thesis by simp
  qed
next
  case (2 result)
  then show ?case by simp
next
  case (3 result child rest)
  from 3(1) obtain v where v: "recursive_parse_xml_to_dict child = Inr (Dict [(tag child, v)])" "\<not> is_List v"
    by blast
  from 3(3) obtain olds where olds: "object_list result = Some olds" by blast
  show ?case
  proof (cases "tag child = ''object''")
    case True
    with v olds have ac: "add_child result (tag child) (Dict [(tag child, v)]) = Inr (AList.update ''object'' (List (olds @ [v])) result)"
      by (simp add: add_child_object)
    have "object_list (AList.update ''object'' (List (olds @ [v])) result) \<noteq> None"
      by (simp add: object_list_update_object)
    from 3(2)[OF this] v(1) ac show ?thesis by simp
  next
    case False
    with v have ac: "add_child result (tag child) (Dict [(tag child, v)]) = Inr (AList.update (tag child) v result)"
      by (simp add: add_child_other)
    from False olds have "object_list (AList.update (tag child) v result) \<noteq> None"
      by (simp add: object_list_update_other)
    from 3(2)[OF this] v(1) ac show ?thesis by simp
  qed
qed

lemma child_value_total: "\<exists>v. recursive_parse_xml_to_dict c = Inr (Dict [(tag c, v)]) \<and> child_value c = Inr v \<and> \<not> is_List v"
proof -
  from parse_total_aux(1)[of c] obtain v where
    "recursive_parse_xml_to_dict c = Inr (Dict [(tag c, v)])" "\<not> is_List v" by blast
  then show ?thesis by (simp add: child_value_def dict_getitem_def)
qed

text \<open>One pass of the loop, as an update of the dictionary.\<close>

lemma parse_children_step:
  assumes "object_list result = Some olds"
  shows "\<exists>v. child_value child = Inr v \<and> \<not> is_List v \<and>
     parse_children result (child # rest) =
       parse_children (AList.update (tag child)
          (if tag child = ''object'' then List (olds @ [v]) else v) result) rest"
proof -
  from child_value_total[of child] obtain v where
    v: "recursive_parse_xml_to_dict child = Inr (Dict [(tag child, v)])" "child_value child = Inr v" "\<not> is_List v"
    by blast
  show ?thesis
  proof (cases "tag child = ''object''")
    case True
    with v assms show ?thesis by (simp add: add_child_object)
  next
    case False
    with v show ?thesis by (simp add: add_child_other)
  qed
qed

lemma parse_children_object:
  assumes "object_list result = Some olds"
  shows "\<exists>r' vs. parse_children result cs = Inr r' \<and>
     list_all2 (\<lambda>c v. child_value c = Inr v) (filter (\<lambda>c. tag c = ''object'') cs) vs \<and>
     object_list r' = Some (olds @ vs)"
  using assms
proof (induction cs arbitrary: result olds)
  case Nil
  then show ?case by simp
next
  case (Cons child rest)
  from parse_children_step[OF Cons.prems, of child rest] obtain v where
    v: "child_value child = Inr v"
    and step: "parse_children result (child # rest) =
       parse_children (AList.update (tag child)
          (if tag child = ''object'' then List (olds @ [v]) else v) result) rest"
    by blast
  show ?case
  proof (cases "tag child = ''object''")
    case True
    let ?r = "AList.update ''object'' (List (olds @ [v])) result"
    have "object_list ?r = Some (olds @ [v])" by (rule object_list_update_object)
    from Cons.IH[OF this] obtain r' vs where
      r': "parse_children ?r rest = Inr r'"
      "list_all2 (\<lambda>c v. child_value c = Inr v) (filter (\<lambda>c. tag c = ''object'') rest) vs"
      "object_list r' = Some ((olds @ [v]) @ vs)"
      by blast
    have "parse_children result (child # rest) = Inr r'" using step True r'(1) by simp
    moreover have "list_all2 (\<lambda>c v. child_value c = Inr v) (filter (\<lambda>c. tag c = ''object'') (child # rest)) (v # vs)"
      using True v r'(2) by simp
    moreover have "object_list r' = Some (olds @ (v # vs))" using r'(3) by simp
    ultimately show ?thesis by blast
  next
    case False
    let ?r = "AList.update (tag child) v result"
    have "object_list ?r = Some olds" using False Cons.prems by (simp add: object_list_update_other)
    from Cons.IH[OF this] obtain r' vs where
      r': "parse_children ?r rest = Inr r'"
      "list_all2 (\<lambda>c v. child_value c = Inr v) (filter (\<lambda>c. tag c = ''object'') rest) vs"
      "object_list r' = Some (olds @ vs)"
      by blast
    have "parse_children result (child # rest) = Inr r'" using step False r'(1) by simp
    moreover have "list_all2 (\<lambda>c v. child_value c = Inr v) (filter (\<lambda>c. tag c = ''object'') (child # rest)) vs"
      using False r'(2) by simp
    ultimately show ?thesis using r'(3) by blast
  qed
qed

lemma last_tagged_Cons:
  "last_tagged k (c # cs) = (case last_tagged k cs of None \<Rightarrow> (if tag c = k then Some c else None) | Some c' \<Rightarrow> Some c')"
proof -
  have "\<And>xs ys. find (\<lambda>c. tag c = k) (xs @ ys) = (case find (\<lambda>c. tag c = k) xs of None \<Rightarrow> find (\<lambda>c. tag c = k) ys | Some x \<Rightarrow> Some x)"
    subgoal for xs ys by (induction xs) simp_all
    done
  then show ?thesis by (simp add: last_tagged_def split: option.splits)
qed

lemma parse_children_other:
  assumes "object_list result = Some olds" and "k \<noteq> ''object''"
  shows "\<exists>r'. parse_children result cs = Inr r' \<and>
     (case last_tagged k cs of None \<Rightarrow> map_of r' k = map_of result k
      | Some c \<Rightarrow> (\<exists>v. child_value c = Inr v \<and> \<not> is_List v \<and> map_of r' k = Some v))"
  using assms(1)
proof (induction cs arbitrary: result olds)
  case Nil
  then show ?case by (simp add: last_tagged_def)
next
  case (Cons child rest)
  from parse_children_step[OF Cons.prems, of child rest] obtain v where
    v: "child_value child = Inr v" "\<not> is_List v"
    and step: "parse_children result (child # rest) =
       parse_children (AList.update (tag child)
          (if tag child = ''object'' then List (olds @ [v]) else v) result) rest"
    by blast
  let ?r = "AList.update (tag child) (if tag child = ''object'' then List (olds @ [v]) else v) result"
  have "\<exists>olds'. object_list ?r = Some olds'"
    using Cons.prems by (simp add: object_list_update_object object_list_update_other)
  then obtain olds' where "object_list ?r = Some olds'" by blast
  from Cons.IH[OF this] obtain r' where
    r': "parse_children ?r rest = Inr r'"
    "(case last_tagged k rest of None \<Rightarrow> map_of r' k = map_of ?r k
      | Some c \<Rightarrow> (\<exists>v. child_value c = Inr v \<and> \<not> is_List v \<and> map_of r' k = Some v))"
    by blast
  have "parse_children result (child # rest) = Inr r'" using step r'(1) by simp
  moreover have "(case last_tagged k (child # rest) of None \<Rightarrow> map_of r' k = map_of result k
      | Some c \<Rightarrow> (\<exists>v. child_value c = Inr v \<and> \<not> is_List v \<and> map_of r' k = Some v))"
    using r'(2) v assms(2)
    by (auto simp: last_tagged_Cons update_conv' split: option.splits)
  ultimately show ?case by blast
qed

lemma add_child_update:
  "add_child result ctag cr = Inr r1 \<Longrightarrow> \<exists>v. r1 = AList.update ctag v result"
  by (auto simp: add_child_def bind_eq_Inr Let_def split: if_splits)

lemma parse_children_keys:
  "distinct (map fst result) \<Longrightarrow> parse_children result cs = Inr r' \<Longrightarrow>
     distinct (map fst r') \<and> fst ` set r' = fst ` set result \<union> tag ` set cs"
proof (induction cs arbitrary: result)
  case Nil
  then show ?case by simp
next
  case (Cons child rest)
  from Cons.prems(2) obtain cr r1 where
    r1: "add_child result (tag child) cr = Inr r1" "parse_children r1 rest = Inr r'"
    by (auto simp: bind_eq_Inr)
  from add_child_update[OF r1(1)] obtain v where v: "r1 = AList.update (tag child) v result"
    by blast
  have d: "distinct (map fst r1)" using v Cons.prems(1) by (simp add: distinct_update)
  have k: "fst ` set r1 = insert (tag child) (fst ` set result)"
    using v by (simp add: dom_update)
  from Cons.IH[OF d r1(2)] k show ?case by auto
qed


lemma find_append:
  "find P (xs @ ys) = (case find P xs of None \<Rightarrow> find P ys | Some x \<Rightarrow> Some x)"
  by (induction xs) simp_all

lemma last_tagged_decomp:
  assumes "tag c = k" and "\<forall>c' \<in> set post. tag c' \<noteq> k"
  shows "last_tagged k (pre @ c # post) = Some c"
proof -
  from assms(2) have "find (\<lambda>c. tag c = k) (rev post) = None"
    by (simp add: find_None_iff)
  with assms(1) show ?thesis by (simp add: last_tagged_def find_append)
qed

lemma last_tagged_Some:
  "last_tagged k cs = Some c \<Longrightarrow> c \<in> set cs \<and> tag c = k"
proof -
  assume "last_tagged k cs = Some c"
  then obtain i where "i < length (rev cs)" "tag (rev cs ! i) = k" "c = rev cs ! i"
    by (auto simp: last_tagged_def find_Some_iff)
  then show ?thesis using nth_mem[of i "rev cs"] by simp
qed

lemma last_tagged_None:
  "last_tagged k cs = None \<longleftrightarrow> k \<notin> tag ` set cs"
  by (auto simp: last_tagged_def find_None_iff)

lemma distinct_keys_once:
  "distinct (map fst xs) \<Longrightarrow> k \<in> fst ` set xs \<Longrightarrow> length (filter (\<lambda>kv. fst kv = k) xs) = 1"
proof (induction xs)
  case Nil
  then show ?case by simp
next
  case (Cons x xs)
  show ?case
  proof (cases "fst x = k")
    case True
    from Cons.prems(1) have "fst x \<notin> fst ` set xs" by simp
    with True have "\<forall>kv \<in> set xs. fst kv \<noteq> k" by (metis imageI)
    then have "filter (\<lambda>kv. fst kv = k) xs = []" by (simp add: filter_empty_conv)
    with True show ?thesis by simp
  next
    case False
    with Cons show ?thesis by auto
  qed
qed

lemma object_list_nonempty:
  "object_list r = Some vs \<Longrightarrow> vs \<noteq> [] \<Longrightarrow> map_of r ''object'' = Some (List vs)"
  by (auto simp: object_list_def split: option.splits pyval.splits)

lemma parse_internal:
  assumes "cs \<noteq> []"
  shows "\<exists>result. parse_children [] cs = Inr result \<and>
     recursive_parse_xml_to_dict (Element t tx cs) = Inr (Dict [(t, Dict result)])"
proof -
  have "object_list [] \<noteq> None" by (simp add: object_list_def)
  from parse_total_aux(2)[OF this, of cs] obtain result where "parse_children [] cs = Inr result"
    by blast
  with assms show ?thesis by simp
qed

text \<open>
  Claim C1. For an element with children, the parser returns \<open>{tag: result}\<close> where,
  as soon as there is a child tagged \<open>object\<close> (in particular when there are two or
  more), \<open>result['object']\<close> is the list of the parsed values of all children tagged
  \<open>object\<close>, one entry per child and in document order; every other tag that occurs
  among the children maps directly to the parsed value of a child with that tag, which is
  never a list.
\<close>

theorem object_siblings_accumulate:
  assumes "cs \<noteq> []"
  shows "\<exists>result vs.
     recursive_parse_xml_to_dict (Element t tx cs) = Inr (Dict [(t, Dict result)]) \<and>
     list_all2 (\<lambda>c v. child_value c = Inr v) (filter (\<lambda>c. tag c = ''object'') cs) vs \<and>
     (vs \<noteq> [] \<longrightarrow> map_of result ''object'' = Some (List vs)) \<and>
     (\<forall>k. k \<noteq> ''object'' \<and> k \<in> tag ` set cs \<longrightarrow>
        (\<exists>c v. c \<in> set cs \<and> tag c = k \<and> child_value c = Inr v \<and> \<not> is_List v \<and>
           map_of result k = Some v))"
proof -
  have e: "object_list [] = Some []" by (simp add: object_list_def)
  from parse_internal[OF assms, of t tx] obtain result where
    r: "parse_children [] cs = Inr result"
    "recursive_parse_xml_to_dict (Element t tx cs) = Inr (Dict [(t, Dict result)])"
    by blast
  from parse_children_object[OF e, of cs] r(1) obtain vs where
    vs: "list_all2 (\<lambda>c v. child_value c = Inr v) (filter (\<lambda>c. tag c = ''object'') cs) vs"
    "object_list result = Some vs"
    by auto
  have "\<exists>c v. c \<in> set cs \<and> tag c = k \<and> child_value c = Inr v \<and> \<not> is_List v \<and>
           map_of result k = Some v"
    if k: "k \<noteq> ''object''" "k \<in> tag ` set cs" for k
  proof -
    from k(2) obtain c where c: "last_tagged k cs = Some c"
      using last_tagged_None[of k cs] by (cases "last_tagged k cs") auto
    from parse_children_other[OF e k(1), of cs] r(1) c obtain v where
      "child_value c = Inr v" "\<not> is_List v" "map_of result k = Some v"
      by auto
    with last_tagged_Some[OF c] show ?thesis by blast
  qed
  with r(2) vs(1) object_list_nonempty[OF vs(2)] show ?thesis by blast
qed

text \<open>
  Claim C10. For a tag \<open>k\<close> other than \<open>object\<close>, the dictionary of an element holds
  under \<open>k\<close> the parsed value of the last child tagged \<open>k\<close>, whatever children with
  the same tag come before it; the value is stored as it is, not in a list, and the
  dictionary has exactly one entry for \<open>k\<close>, so the earlier siblings leave no trace.
\<close>

theorem other_siblings_overwrite:
  assumes "k \<noteq> ''object''" and "cs = pre @ c # post" and "tag c = k"
    and "\<forall>c' \<in> set post. tag c' \<noteq> k"
  shows "\<exists>result v.
     recursive_parse_xml_to_dict (Element t tx cs) = Inr (Dict [(t, Dict result)]) \<and>
     child_value c = Inr v \<and> map_of result k = Some v \<and> \<not> is_List v \<and>
     length (filter (\<lambda>kv. fst kv = k) result) = 1"
proof -
  have e: "object_list [] = Some []" by (simp add: object_list_def)
  from assms(2) have ne: "cs \<noteq> []" by simp
  from parse_internal[OF ne, of t tx] obtain result where
    r: "parse_children [] cs = Inr result"
    "recursive_parse_xml_to_dict (Element t tx cs) = Inr (Dict [(t, Dict result)])"
    by blast
  have lt: "last_tagged k cs = Some c"
    using last_tagged_decomp[OF assms(3,4)] assms(2) by simp
  from parse_children_other[OF e assms(1), of cs] r(1) lt obtain v where
    v: "child_value c = Inr v" "\<not> is_List v" "map_of result k = Some v"
    by auto
  from parse_children_keys[OF _ r(1)] have d: "distinct (map fst result)" by simp
  from v(3) have "k \<in> fst ` set result" by (metis map_of_eq_None_iff option.distinct(1))
  from distinct_keys_once[OF d this] r(2) v show ?thesis by blast
qed


theorem object_siblings_accumulate_witness:
  "children_0001 \<noteq> [] \<and>
   (\<exists>result. recursive_parse_xml_to_dict annotation_0001 = Inr (Dict [(''annotation'', Dict result)]) \<and>
      map_of result ''object'' = Some (List
        [Dict [(''name'', Str ''car''), (''difficult'', Str ''0''),
               (''bndbox'', Dict [(''xmin'', Str ''10''), (''ymin'', Str ''20''),
                                  (''xmax'', Str ''30''), (''ymax'', Str ''40'')])],
         Dict [(''name'', Str ''dog''), (''difficult'', Str ''1''),
               (''bndbox'', Dict [(''xmin'', Str ''1''), (''ymin'', Str ''2''),
                                  (''xmax'', Str ''3''), (''ymax'', Str ''4'')])]]))"
proof -
  have h: "children_0001 \<noteq> []" by (simp add: children_0001_def)
  from object_siblings_accumulate[OF h, of "''annotation''" None] obtain result vs where
    r: "recursive_parse_xml_to_dict (Element ''annotation'' None children_0001) = Inr (Dict [(''annotation'', Dict result)])"
    and vs: "list_all2 (\<lambda>c v. child_value c = Inr v) (filter (\<lambda>c. tag c = ''object'') children_0001) vs"
    and ob: "vs \<noteq> [] \<longrightarrow> map_of result ''object'' = Some (List vs)"
    by blast
  have f: "filter (\<lambda>c. tag c = ''object'') children_0001 =
      [voc_object ''car'' ''0'' ''10'' ''20'' ''30'' ''40'', voc_object ''dog'' ''1'' ''1'' ''2'' ''3'' ''4'']"
    by (simp add: children_0001_def size_100_def voc_object_def)
  have c1: "child_value (voc_object ''car'' ''0'' ''10'' ''20'' ''30'' ''40'') =
     Inr (Dict [(''name'', Str ''car''), (''difficult'', Str ''0''),
               (''bndbox'', Dict [(''xmin'', Str ''10''), (''ymin'', Str ''20''),
                                  (''xmax'', Str ''30''), (''ymax'', Str ''40'')])])"
    by code_simp
  have c2: "child_value (voc_object ''dog'' ''1'' ''1'' ''2'' ''3'' ''4'') =
     Inr (Dict [(''name'', Str ''dog''), (''difficult'', Str ''1''),
               (''bndbox'', Dict [(''xmin'', Str ''1''), (''ymin'', Str ''2''),
                                  (''xmax'', Str ''3''), (''ymax'', Str ''4'')])])"
    by code_simp
  from vs have "vs = [Dict [(''name'', Str ''car''), (''difficult'', Str ''0''),
               (''bndbox'', Dict [(''xmin'', Str ''10''), (''ymin'', Str ''20''),
                                  (''xmax'', Str ''30''), (''ymax'', Str ''40'')])],
         Dict [(''name'', Str ''dog''), (''difficult'', Str ''1''),
               (''bndbox'', Dict [(''xmin'', Str ''1''), (''ymin'', Str ''2''),
                                  (''xmax'', Str ''3''), (''ymax'', Str ''4'')])]]"
    unfolding f by (auto simp: list_all2_Cons1 c1 c2)
  with ob r h show ?thesis by (simp add: annotation_0001_def)
qed

theorem other_siblings_overwrite_witness:
  "''name'' \<noteq> ''object'' \<and>
   [leaf ''name'' ''car'', leaf ''pose'' ''Left'', leaf ''name'' ''dog'', leaf ''truncated'' ''0'']
     = [leaf ''name'' ''car'', leaf ''pose'' ''Left''] @ leaf ''name'' ''dog'' # [leaf ''truncated'' ''0''] \<and>
   tag (leaf ''name'' ''dog'') = ''name'' \<and>
   tag (leaf ''truncated'' ''0'') \<noteq> ''name'' \<and>
   (\<exists>result. recursive_parse_xml_to_dict (Element ''object'' None
        [leaf ''name'' ''car'', leaf ''pose'' ''Left'', leaf ''name'' ''dog'', leaf ''truncated'' ''0''])
        = Inr (Dict [(''object'', Dict result)]) \<and>
      map_of result ''name'' = Some (Str ''dog'') \<and>
      length (filter (\<lambda>kv. fst kv = ''name'') result) = 1)"
proof -
  have h1: "''name'' \<noteq> ''object''" by simp
  have h2: "[leaf ''name'' ''car'', leaf ''pose'' ''Left'', leaf ''name'' ''dog'', leaf ''truncated'' ''0'']
     = [leaf ''name'' ''car'', leaf ''pose'' ''Left''] @ leaf ''name'' ''dog'' # [leaf ''truncated'' ''0'']" by simp
  have h3: "tag (leaf ''name'' ''dog'') = ''name''" by (simp add: leaf_def)
  have h4: "\<forall>c' \<in> set [leaf ''truncated'' ''0'']. tag c' \<noteq> ''name''" by (simp add: leaf_def)
  have cv: "child_value (leaf ''name'' ''dog'') = Inr (Str ''dog'')" by code_simp
  from other_siblings_overwrite[OF h1 h2 h3 h4, of "''object''" None] cv
  have "\<exists>result. recursive_parse_xml_to_dict (Element ''object'' None
        [leaf ''name'' ''car'', leaf ''pose'' ''Left'', leaf ''name'' ''dog'', leaf ''truncated'' ''0''])
        = Inr (Dict [(''object'', Dict result)]) \<and>
      map_of result ''name'' = Some (Str ''dog'') \<and>
      length (filter (\<lambda>kv. fst kv = ''name'') result) = 1"
    by auto
  moreover have "tag (leaf ''truncated'' ''0'') \<noteq> ''name''" by (simp add: leaf_def)
  ultimately show ?thesis using h1 h2 h3 by blast
qed

section \<open>Comprehensions\<close>

lemma comprehension_Inr:
  "comprehension c f xs = Inr ys \<Longrightarrow>
     (\<forall>x \<in> set xs. \<exists>b. c x = Inr b) \<and>
     list_all2 (\<lambda>x y. f x = Inr y) (filter (\<lambda>x. c x = Inr True) xs) ys"
proof (induction xs arbitrary: ys)
  case Nil
  then show ?case by simp
next
  case (Cons x xs)
  from Cons.prems obtain b where b: "c x = Inr b" by (auto simp: bind_eq_Inr)
  show ?case
  proof (cases b)
    case True
    with Cons.prems b obtain y ys' where
      "f x = Inr y" "comprehension c f xs = Inr ys'" "ys = y # ys'"
      by (auto simp: bind_eq_Inr)
    with Cons.IH[of ys'] b True show ?thesis by auto
  next
    case False
    with Cons.prems b have "comprehension c f xs = Inr ys" by simp
    with Cons.IH[of ys] b False show ?thesis by auto
  qed
qed



lemma comprehension_succeeds:
  assumes "\<forall>x \<in> set xs. \<exists>b. c x = Inr b"
    and "\<forall>x \<in> set xs. c x = Inr True \<longrightarrow> (\<exists>y. f x = Inr y)"
  shows "\<exists>ys. comprehension c f xs = Inr ys"
  using assms
proof (induction xs)
  case Nil
  then show ?case by simp
next
  case (Cons a xs)
  then obtain ys where "comprehension c f xs = Inr ys" by auto
  moreover from Cons.prems(1) obtain b where "c a = Inr b" by auto
  ultimately show ?case using Cons.prems(2) by (cases b) auto
qed

lemma not_difficult_True: "not_difficult obj = Inr True \<longleftrightarrow> difficult_of obj = Inr 0"
  by (cases "difficult_of obj") (simp_all add: not_difficult_def)

lemma not_difficult_Inr: "(\<exists>b. not_difficult obj = Inr b) \<longleftrightarrow> (\<exists>n. difficult_of obj = Inr n)"
  by (cases "difficult_of obj") (simp_all add: not_difficult_def)

section \<open>The vocabulary\<close>







section \<open>Annotation records\<close>

lemma record_of_data_Inr:
  assumes "record_of_data data = Inr ann"
  shows "\<exists>objects objs. subscript data ''object'' = Inr objects \<and> iterate objects = Inr objs \<and>
     comprehension not_difficult box_of objs = Inr (boxes ann) \<and>
     comprehension not_difficult label_of objs = Inr (labels ann) \<and>
     subscript data ''size'' = Inr (size_ann ann)"
proof -
  from assms obtain objects objs bs ls sz where
    "subscript data ''object'' = Inr objects" "iterate objects = Inr objs"
    "comprehension not_difficult box_of objs = Inr bs"
    "comprehension not_difficult label_of objs = Inr ls"
    "subscript data ''size'' = Inr sz"
    "ann = \<lparr>boxes = bs, labels = ls, size_ann = sz\<rparr>"
    unfolding record_of_data_def by (auto simp: bind_eq_Inr)
  then show ?thesis by simp
qed

lemma annotation_record_Inr:
  assumes "annotation_record x = Inr ann"
  shows "\<exists>objs. objects_of x = Inr objs \<and>
     comprehension not_difficult box_of objs = Inr (boxes ann) \<and>
     comprehension not_difficult label_of objs = Inr (labels ann)"
proof -
  from assms obtain parsed data where
    p: "recursive_parse_xml_to_dict x = Inr parsed" "subscript parsed ''annotation'' = Inr data"
    "record_of_data data = Inr ann"
    unfolding annotation_record_def by (auto simp: bind_eq_Inr)
  from record_of_data_Inr[OF p(3)] p(1,2) show ?thesis
    by (auto simp: objects_of_def)
qed

lemma annotation_record_kept:
  assumes "annotation_record x = Inr ann"
  shows "\<exists>objs. objects_of x = Inr objs \<and>
     (\<forall>ob \<in> set objs. \<exists>n. difficult_of ob = Inr n) \<and>
     list_all2 (\<lambda>ob b. box_of ob = Inr b) (filter (\<lambda>ob. difficult_of ob = Inr 0) objs) (boxes ann) \<and>
     list_all2 (\<lambda>ob l. label_of ob = Inr l) (filter (\<lambda>ob. difficult_of ob = Inr 0) objs) (labels ann)"
proof -
  from annotation_record_Inr[OF assms] obtain objs where
    os: "objects_of x = Inr objs"
    "comprehension not_difficult box_of objs = Inr (boxes ann)"
    "comprehension not_difficult label_of objs = Inr (labels ann)"
    by blast
  from comprehension_Inr[OF os(2)] comprehension_Inr[OF os(3)] os(1) show ?thesis
    by (auto simp: not_difficult_True not_difficult_Inr)
qed

lemma build_anns_other:
  "build_anns fs anns0 is = Inr anns' \<Longrightarrow> k \<notin> set is \<Longrightarrow> map_of anns' k = map_of anns0 k"
proof (induction "is" arbitrary: anns0)
  case Nil
  then show ?case by simp
next
  case (Cons i "is")
  from Cons.prems(1) obtain x a where
    "build_anns fs (AList.update i a anns0) is = Inr anns'"
    by (auto simp: bind_eq_Inr)
  from Cons.IH[OF this] Cons.prems(2) show ?case by (simp add: update_conv')
qed

lemma build_anns_Inr:
  "build_anns fs anns0 is = Inr anns' \<Longrightarrow> k \<in> set is \<Longrightarrow>
     \<exists>x a. annotation_files fs k = Some x \<and> annotation_record x = Inr a \<and> map_of anns' k = Some a"
proof (induction "is" arbitrary: anns0)
  case Nil
  then show ?case by simp
next
  case (Cons i "is")
  from Cons.prems(1) obtain x a where
    xa: "open_file (annotation_files fs i) = Inr x" "annotation_record x = Inr a"
    "build_anns fs (AList.update i a anns0) is = Inr anns'"
    by (auto simp: bind_eq_Inr)
  show ?case
  proof (cases "k \<in> set is")
    case True
    from Cons.IH[OF xa(3) True] show ?thesis .
  next
    case False
    with Cons.prems(2) have "k = i" by simp
    moreover from build_anns_other[OF xa(3) False] have "map_of anns' k = map_of (AList.update i a anns0) k" .
    moreover from xa(1) have "annotation_files fs i = Some x"
      by (simp add: open_file_def split: option.splits)
    ultimately show ?thesis using xa(2) by (simp add: update_conv')
  qed
qed

lemma build_anns_keys:
  "build_anns fs anns0 is = Inr anns' \<Longrightarrow> fst ` set anns' = fst ` set anns0 \<union> set is"
proof (induction "is" arbitrary: anns0)
  case Nil
  then show ?case by simp
next
  case (Cons i "is")
  from Cons.prems(1) obtain x a where
    "build_anns fs (AList.update i a anns0) is = Inr anns'"
    by (auto simp: bind_eq_Inr)
  from Cons.IH[OF this] show ?case by (simp add: dom_update)
qed

lemma init_Inr:
  assumes "init fs tr = Inr ds"
  shows "\<exists>content. split_file fs = Some content \<and>
     ids ds = sort (map strip (readlines content)) \<and>
     build_anns fs [] (ids ds) = Inr (anns ds) \<and>
     json_category_id_to_contiguous_id ds =
       dict_of (map (\<lambda>iv. (snd iv, fst iv + 1)) (enumerate 0 [0..<20])) \<and>
     contiguous_category_id_to_json_id ds =
       dict_of (map (\<lambda>kv. (snd kv, fst kv)) (json_category_id_to_contiguous_id ds)) \<and>
     id_to_img_map ds = dict_of (enumerate 0 (ids ds)) \<and>
     transforms ds = tr"
proof -
  from assms obtain content where c: "open_file (split_file fs) = Inr content"
    unfolding init_def by (auto simp: bind_eq_Inr)
  then have sf: "split_file fs = Some content"
    by (simp add: open_file_def split: option.splits)
  from assms c obtain anns' where
    "build_anns fs [] (sort (map strip (readlines content))) = Inr anns'"
    "ds = \<lparr>ids = sort (map strip (readlines content)),
          json_category_id_to_contiguous_id = dict_of (map (\<lambda>iv. (snd iv, fst iv + 1)) (enumerate 0 [0..<20])),
          contiguous_category_id_to_json_id = dict_of (map (\<lambda>kv. (snd kv, fst kv))
             (dict_of (map (\<lambda>iv. (snd iv, fst iv + 1)) (enumerate 0 [0..<20])))),
          anns = anns', id_to_img_map = dict_of (enumerate 0 (sort (map strip (readlines content)))),
          transforms = tr\<rparr>"
    unfolding init_def by (auto simp: bind_eq_Inr Let_def)
  with sf show ?thesis by simp
qed

text \<open>
  Claim C2. When construction succeeds, every identifier of the dataset has an annotation
  file and a record whose \<open>boxes\<close> and \<open>labels\<close> have the same length: both are
  computed, entry by entry and in order, from exactly those objects of the file whose
  \<open>difficult\<close> field parses to the integer 0. The \<open>difficult\<close> field of every object
  parses to an integer, and an object for which that integer is not 0 gives rise to no
  entry in either sequence.
\<close>

theorem boxes_and_labels_agree:
  assumes "init fs tr = Inr ds" and "img_id \<in> set (ids ds)"
  shows "\<exists>x ann objs. annotation_files fs img_id = Some x \<and> objects_of x = Inr objs \<and>
     map_of (anns ds) img_id = Some ann \<and>
     length (boxes ann) = length (labels ann) \<and>
     (\<forall>ob \<in> set objs. \<exists>n. difficult_of ob = Inr n) \<and>
     list_all2 (\<lambda>ob b. box_of ob = Inr b) (filter (\<lambda>ob. difficult_of ob = Inr 0) objs) (boxes ann) \<and>
     list_all2 (\<lambda>ob l. label_of ob = Inr l) (filter (\<lambda>ob. difficult_of ob = Inr 0) objs) (labels ann)"
proof -
  from init_Inr[OF assms(1)] have b: "build_anns fs [] (ids ds) = Inr (anns ds)" by blast
  from build_anns_Inr[OF b assms(2)] obtain x a where
    xa: "annotation_files fs img_id = Some x" "annotation_record x = Inr a"
    "map_of (anns ds) img_id = Some a"
    by blast
  from annotation_record_kept[OF xa(2)] obtain objs where
    os: "objects_of x = Inr objs"
    "\<forall>ob \<in> set objs. \<exists>n. difficult_of ob = Inr n"
    "list_all2 (\<lambda>ob b. box_of ob = Inr b) (filter (\<lambda>ob. difficult_of ob = Inr 0) objs) (boxes a)"
    "list_all2 (\<lambda>ob l. label_of ob = Inr l) (filter (\<lambda>ob. difficult_of ob = Inr 0) objs) (labels a)"
    by blast
  from os(3,4) have "length (boxes a) = length (labels a)"
    by (simp add: list_all2_lengthD[symmetric])
  with xa os show ?thesis by blast
qed

section \<open>Construction of the example dataset\<close>

lemma example_ids: "sort (map strip (readlines example_split)) = [''0001'', ''0002'', ''0002'']"
  by code_simp

lemma example_anns: "build_anns example_fs [] [''0001'', ''0002'', ''0002''] = Inr (anns example_ds)"
  by code_simp

lemma example_j2c: "dict_of (map (\<lambda>iv. (snd iv, fst iv + 1)) (enumerate 0 [0..<20])) = json_category_id_to_contiguous_id example_ds"
  by code_simp

lemma example_c2j: "dict_of (map (\<lambda>kv. (snd kv, fst kv)) (json_category_id_to_contiguous_id example_ds)) = contiguous_category_id_to_json_id example_ds"
  by code_simp

lemma example_map: "dict_of (enumerate 0 [''0001'', ''0002'', ''0002'']) = id_to_img_map example_ds"
  by code_simp

lemma example_init: "init example_fs None = Inr example_ds"
proof -
  have s: "split_file example_fs = Some example_split"
    by (simp add: example_fs_def)
  show ?thesis
    unfolding init_def s open_file_def
    by (simp only: option.case bind_Inr Let_def example_ids example_anns example_j2c example_c2j example_map)
       (simp add: example_ds_def)
qed

theorem boxes_and_labels_agree_witness:
  "init example_fs None = Inr example_ds \<and> ''0001'' \<in> set (ids example_ds) \<and>
   (\<exists>ann objs. objects_of annotation_0001 = Inr objs \<and> length objs = 2 \<and>
      map_of (anns example_ds) ''0001'' = Some ann \<and>
      length (boxes ann) = length (labels ann) \<and>
      length (filter (\<lambda>ob. difficult_of ob = Inr 0) objs) = 1 \<and>
      list_all2 (\<lambda>ob b. box_of ob = Inr b) (filter (\<lambda>ob. difficult_of ob = Inr 0) objs) (boxes ann) \<and>
      list_all2 (\<lambda>ob l. label_of ob = Inr l) (filter (\<lambda>ob. difficult_of ob = Inr 0) objs) (labels ann))"
proof -
  have h: "''0001'' \<in> set (ids example_ds)" by (simp add: example_ds_def)
  have f: "annotation_files example_fs ''0001'' = Some annotation_0001"
    by (simp add: example_fs_def)
  have ob: "objects_of annotation_0001 = Inr
     [Dict [(''name'', Str ''car''), (''difficult'', Str ''0''),
            (''bndbox'', Dict [(''xmin'', Str ''10''), (''ymin'', Str ''20''),
                               (''xmax'', Str ''30''), (''ymax'', Str ''40'')])],
      Dict [(''name'', Str ''dog''), (''difficult'', Str ''1''),
            (''bndbox'', Dict [(''xmin'', Str ''1''), (''ymin'', Str ''2''),
                               (''xmax'', Str ''3''), (''ymax'', Str ''4'')])]]"
    by code_simp
  have d1: "difficult_of (Dict [(''name'', Str ''car''), (''difficult'', Str ''0''),
            (''bndbox'', Dict [(''xmin'', Str ''10''), (''ymin'', Str ''20''),
                               (''xmax'', Str ''30''), (''ymax'', Str ''40'')])]) = Inr 0"
    by code_simp
  have d2: "difficult_of (Dict [(''name'', Str ''dog''), (''difficult'', Str ''1''),
            (''bndbox'', Dict [(''xmin'', Str ''1''), (''ymin'', Str ''2''),
                               (''xmax'', Str ''3''), (''ymax'', Str ''4'')])]) = Inr 1"
    by code_simp
  from boxes_and_labels_agree[OF example_init h] f ob d1 d2 example_init h
  show ?thesis by auto
qed

section \<open>An annotation without objects\<close>

lemma no_object_KeyError:
  assumes "cs \<noteq> []" and "''object'' \<notin> tag ` set cs"
  shows "annotation_record (Element ''annotation'' tx cs) = Inl (KeyError ''object'')"
proof -
  from parse_internal[OF assms(1), of "''annotation''" tx] obtain result where
    r: "parse_children [] cs = Inr result"
    "recursive_parse_xml_to_dict (Element ''annotation'' tx cs) = Inr (Dict [(''annotation'', Dict result)])"
    by blast
  from parse_children_keys[OF _ r(1)] assms(2) have "''object'' \<notin> fst ` set result" by simp
  then have "map_of result ''object'' = None" by (simp add: map_of_eq_None_iff)
  with r(2) show ?thesis
    by (simp add: annotation_record_def record_of_data_def dict_getitem_def)
qed

text \<open>
  Claim C3 (the behaviour of the code at an annotation without objects). The parser
  creates the key \<open>object\<close> only when it meets a child with that tag, and line 59
  reads \<^verbatim>\<open>data['object']\<close> unconditionally: for the data directory \<open>fs_no_object\<close>,
  whose only annotation holds a \<open>size\<close> and no \<open>object\<close>, construction raises
  \<^verbatim>\<open>KeyError: 'object'\<close> whatever the transform is. No dataset is built.
\<close>

theorem no_object_construction_fails:
  "init fs_no_object tr = Inl (KeyError ''object'')"
proof -
  have s: "open_file (split_file fs_no_object) = Inr (''0001'' @ [CHR 0x0A])"
    by (simp add: fs_no_object_def open_file_def)
  have i: "sort (map strip (readlines (''0001'' @ [CHR 0x0A]))) = [''0001'']" by code_simp
  have a: "annotation_files fs_no_object ''0001'' = Some (Element ''annotation'' None [size_100])"
    by (simp add: fs_no_object_def annotation_no_object_def)
  have "annotation_record (Element ''annotation'' None [size_100]) = Inl (KeyError ''object'')"
    by (rule no_object_KeyError) (simp_all add: size_100_def)
  with a have b: "build_anns fs_no_object [] [''0001''] = Inl (KeyError ''object'')"
    by (simp add: open_file_def)
  show ?thesis unfolding init_def s bind_Inr Let_def i b by simp
qed

section \<open>Unknown class names\<close>














section \<open>The two id mappings\<close>

lemma update_absent: "k \<notin> fst ` set d \<Longrightarrow> AList.update k v d = d @ [(k, v)]"
  by (induction d) auto

lemma foldl_update_distinct:
  "distinct (map fst (d @ kvs)) \<Longrightarrow>
     foldl (\<lambda>d kv. AList.update (fst kv) (snd kv) d) d kvs = d @ kvs"
proof (induction kvs arbitrary: d)
  case Nil
  then show ?case by simp
next
  case (Cons kv kvs)
  from Cons.prems have "fst kv \<notin> fst ` set d" by auto
  then have u: "AList.update (fst kv) (snd kv) d = d @ [kv]" by (simp add: update_absent)
  from Cons.prems have "distinct (map fst ((d @ [kv]) @ kvs))" by simp
  from Cons.IH[OF this] u show ?case by simp
qed

lemma dict_of_distinct: "distinct (map fst kvs) \<Longrightarrow> dict_of kvs = kvs"
  using foldl_update_distinct[of "[]" kvs] by (simp add: dict_of_def)

lemma j2c_eq:
  "dict_of (map (\<lambda>iv. (snd iv, fst iv + 1)) (enumerate 0 [0..<20])) = map (\<lambda>c. (c, c + 1)) [0..<20]"
proof -
  have "map (\<lambda>iv. (snd iv, fst iv + 1)) (enumerate 0 [0..<20]) = map (\<lambda>c. (c, c + 1)) [0..<20]"
    by (simp add: enumerate_eq_zip zip_same_conv_map)
  moreover have "distinct (map fst (map (\<lambda>c. (c, c + 1)) [0..<20]))"
    by (simp add: comp_def)
  ultimately show ?thesis by (simp add: dict_of_distinct del: upt.simps)
qed

lemma c2j_eq:
  "dict_of (map (\<lambda>kv. (snd kv, fst kv)) (map (\<lambda>c. (c, c + 1)) [0..<20])) = map (\<lambda>c. (c + 1, c)) [0..<(20::nat)]"
proof -
  have "distinct (map fst (map (\<lambda>c. (c + 1, c)) [0..<(20::nat)]))"
    by (simp add: comp_def distinct_map del: upt.simps)
  then show ?thesis by (simp add: dict_of_distinct comp_def del: upt.simps)
qed

lemma map_of_j2c:
  "map_of (map (\<lambda>c. (c, c + 1)) [0..<(20::nat)]) k = (if k < 20 then Some (k + 1) else None)"
  by (simp add: map_of_map_restrict restrict_map_def del: upt.simps)

lemma map_of_shift:
  "map_of (map (\<lambda>c. (c + 1, c)) [0..<(n::nat)]) v = (if 1 \<le> v \<and> v \<le> n then Some (v - 1) else None)"
proof (induction n)
  case 0
  then show ?case by simp
next
  case (Suc n)
  then show ?case by (auto simp: map_add_def split: option.splits)
qed

lemma for_each_lookup:
  "\<forall>l \<in> set ls. map_of d l = Some (f l) \<Longrightarrow> for_each (dict_getitem mk d) ls = Inr (map f ls)"
  by (induction ls) (simp_all add: dict_getitem_def)

lemma init_mappings:
  assumes "init fs tr = Inr ds"
  shows "json_category_id_to_contiguous_id ds = map (\<lambda>c. (c, c + 1)) [0..<20]"
    and "contiguous_category_id_to_json_id ds = map (\<lambda>c. (c + 1, c)) [0..<20]"
proof -
  from init_Inr[OF assms] have
    j: "json_category_id_to_contiguous_id ds =
       dict_of (map (\<lambda>iv. (snd iv, fst iv + 1)) (enumerate 0 [0..<20]))"
    and c: "contiguous_category_id_to_json_id ds =
       dict_of (map (\<lambda>kv. (snd kv, fst kv)) (json_category_id_to_contiguous_id ds))"
    by blast+
  from j show j': "json_category_id_to_contiguous_id ds = map (\<lambda>c. (c, c + 1)) [0..<20]"
    by (simp only: j2c_eq)
  from c show "contiguous_category_id_to_json_id ds = map (\<lambda>c. (c + 1, c)) [0..<20]"
    by (simp only: j' c2j_eq)
qed

lemma make_sample_classes:
  assumes "as_tensor (boxes ann) = Inr t" and "reshape_rows_of_4 t = Inr b"
    and "BoxList b (img_size img) XYXY = Inr bl"
    and "for_each (dict_getitem KeyError_label (json_category_id_to_contiguous_id ds)) (labels ann)
           = Inr classes"
  shows "make_sample ds img ann index =
     Inr (fst (apply_transforms (transforms ds)
                 (img, clip_to_image (add_field (convert bl XYXY) ''labels'' classes) True)),
          snd (apply_transforms (transforms ds)
                 (img, clip_to_image (add_field (convert bl XYXY) ''labels'' classes) True)),
          index)"
  using assms by (simp add: make_sample_def Let_def)

text \<open>
  Claim C5. In a dataset that was built, \<open>json_category_id_to_contiguous_id\<close> sends
  every raw index \<open>c\<close> in 0..19 to \<open>c + 1\<close> and \<open>contiguous_category_id_to_json_id\<close>
  sends \<open>c + 1\<close> back to \<open>c\<close>; the keys of the first are exactly 0..19, the keys of the
  second exactly 1..20, each once, and the two dictionaries are inverse to each other.
  The accessor looks every raw label of a record up in the first dictionary: for labels
  in 0..19 the classes are the labels plus one, and they are what is attached as the
  field \<open>labels\<close> to the target before it is clipped.
\<close>

theorem contiguous_id_bijection:
  assumes "init fs tr = Inr ds"
  shows "(\<forall>c < 20. map_of (json_category_id_to_contiguous_id ds) c = Some (c + 1) \<and>
                 map_of (contiguous_category_id_to_json_id ds) (c + 1) = Some c) \<and>
     fst ` set (json_category_id_to_contiguous_id ds) = {0..<20} \<and>
     fst ` set (contiguous_category_id_to_json_id ds) = {1..20} \<and>
     distinct (map fst (json_category_id_to_contiguous_id ds)) \<and>
     distinct (map fst (contiguous_category_id_to_json_id ds)) \<and>
     (\<forall>k v. map_of (json_category_id_to_contiguous_id ds) k = Some v \<longleftrightarrow>
            map_of (contiguous_category_id_to_json_id ds) v = Some k) \<and>
     (\<forall>ls. (\<forall>l \<in> set ls. l < 20) \<longrightarrow>
        for_each (dict_getitem KeyError_label (json_category_id_to_contiguous_id ds)) ls
          = Inr (map (\<lambda>c. c + 1) ls)) \<and>
     (\<forall>img ann index t b bl.
        as_tensor (boxes ann) = Inr t \<and> reshape_rows_of_4 t = Inr b \<and>
        BoxList b (img_size img) XYXY = Inr bl \<and> (\<forall>l \<in> set (labels ann). l < 20) \<longrightarrow>
        make_sample ds img ann index =
          Inr (fst (apply_transforms (transforms ds)
                 (img, clip_to_image (add_field (convert bl XYXY) ''labels''
                    (map (\<lambda>c. c + 1) (labels ann))) True)),
               snd (apply_transforms (transforms ds)
                 (img, clip_to_image (add_field (convert bl XYXY) ''labels''
                    (map (\<lambda>c. c + 1) (labels ann))) True)),
               index))"
proof -
  note j = init_mappings(1)[OF assms] and c = init_mappings(2)[OF assms]
  have mj: "\<And>k. map_of (json_category_id_to_contiguous_id ds) k = (if k < 20 then Some (k + 1) else None)"
    unfolding j by (rule map_of_j2c)
  have mc: "\<And>v. map_of (contiguous_category_id_to_json_id ds) v =
      (if 1 \<le> v \<and> v \<le> 20 then Some (v - 1) else None)"
    unfolding c by (rule map_of_shift)
  have 1: "\<forall>c < 20. map_of (json_category_id_to_contiguous_id ds) c = Some (c + 1) \<and>
                 map_of (contiguous_category_id_to_json_id ds) (c + 1) = Some c"
    by (simp add: mj mc)
  have 2: "fst ` set (json_category_id_to_contiguous_id ds) = {0..<20}"
    unfolding j by (simp add: image_image del: upt.simps)
  have 3: "fst ` set (contiguous_category_id_to_json_id ds) = {1..20}"
    unfolding c by (auto simp: image_image image_iff simp del: upt.simps)
  have 4: "distinct (map fst (json_category_id_to_contiguous_id ds))"
    unfolding j by (simp add: comp_def del: upt.simps)
  have 5: "distinct (map fst (contiguous_category_id_to_json_id ds))"
    unfolding c by (simp add: comp_def distinct_map del: upt.simps)
  have 6: "\<forall>k v. map_of (json_category_id_to_contiguous_id ds) k = Some v \<longleftrightarrow>
            map_of (contiguous_category_id_to_json_id ds) v = Some k"
    by (auto simp: mj mc split: if_splits)
  have 7: "for_each (dict_getitem KeyError_label (json_category_id_to_contiguous_id ds)) ls
          = Inr (map (\<lambda>c. c + 1) ls)" if "\<forall>l \<in> set ls. l < 20" for ls
    using that by (intro for_each_lookup) (simp add: mj)
  have all7: "\<forall>ls. (\<forall>l \<in> set ls. l < 20) \<longrightarrow>
        for_each (dict_getitem KeyError_label (json_category_id_to_contiguous_id ds)) ls
          = Inr (map (\<lambda>c. c + 1) ls)"
    using 7 by blast
  have 8: "make_sample ds img ann index =
          Inr (fst (apply_transforms (transforms ds)
                 (img, clip_to_image (add_field (convert bl XYXY) ''labels''
                    (map (\<lambda>c. c + 1) (labels ann))) True)),
               snd (apply_transforms (transforms ds)
                 (img, clip_to_image (add_field (convert bl XYXY) ''labels''
                    (map (\<lambda>c. c + 1) (labels ann))) True)),
               index)"
    if "as_tensor (boxes ann) = Inr t \<and> reshape_rows_of_4 t = Inr b \<and>
        BoxList b (img_size img) XYXY = Inr bl \<and> (\<forall>l \<in> set (labels ann). l < 20)"
    for img ann index t b bl
    using that 7[of "labels ann"] by (intro make_sample_classes[of ann t b img bl]) simp_all
  have all8: "\<forall>img ann index t b bl.
        as_tensor (boxes ann) = Inr t \<and> reshape_rows_of_4 t = Inr b \<and>
        BoxList b (img_size img) XYXY = Inr bl \<and> (\<forall>l \<in> set (labels ann). l < 20) \<longrightarrow>
        make_sample ds img ann index =
          Inr (fst (apply_transforms (transforms ds)
                 (img, clip_to_image (add_field (convert bl XYXY) ''labels''
                    (map (\<lambda>c. c + 1) (labels ann))) True)),
               snd (apply_transforms (transforms ds)
                 (img, clip_to_image (add_field (convert bl XYXY) ''labels''
                    (map (\<lambda>c. c + 1) (labels ann))) True)),
               index)"
    using 8 by blast
  show ?thesis by (intro conjI 1 2 3 4 5 6 all7 all8)
qed

theorem contiguous_id_bijection_witness:
  "init example_fs None = Inr example_ds \<and>
   map_of (json_category_id_to_contiguous_id example_ds) 6 = Some 7 \<and>
   map_of (contiguous_category_id_to_json_id example_ds) 7 = Some 6 \<and>
   for_each (dict_getitem KeyError_label (json_category_id_to_contiguous_id example_ds)) [6, 0, 19]
     = Inr [7, 1, 20]"
proof -
  note t = contiguous_id_bijection[OF example_init]
  from t have a: "\<forall>c < 20. map_of (json_category_id_to_contiguous_id example_ds) c = Some (c + 1) \<and>
                 map_of (contiguous_category_id_to_json_id example_ds) (c + 1) = Some c"
    by (elim conjE)
  from t have b: "\<forall>ls. (\<forall>l \<in> set ls. l < 20) \<longrightarrow>
        for_each (dict_getitem KeyError_label (json_category_id_to_contiguous_id example_ds)) ls
          = Inr (map (\<lambda>c. c + 1) ls)"
    by (elim conjE)
  from a have "map_of (json_category_id_to_contiguous_id example_ds) 6 = Some (6 + 1) \<and>
      map_of (contiguous_category_id_to_json_id example_ds) (6 + 1) = Some 6"
    by (elim allE[of _ 6]) simp
  moreover from b have "for_each (dict_getitem KeyError_label (json_category_id_to_contiguous_id example_ds)) [6, 0, 19]
     = Inr (map (\<lambda>c. c + 1) [6, 0, 19])"
    by (elim allE[of _ "[6, 0, 19]"]) simp
  ultimately show ?thesis using example_init by simp
qed

section \<open>The identifier list\<close>

lemma split_lines_concat: "concat (split_lines cur s) = cur @ s"
  by (induction s arbitrary: cur) simp_all

lemma readlines_concat: "concat (readlines content) = universal_newlines content"
  by (simp add: readlines_def split_lines_concat)

lemma map_of_enumerate:
  "i < length xs \<Longrightarrow> map_of (enumerate 0 xs) i = Some (xs ! i)"
proof -
  assume i: "i < length xs"
  have "map_of (zip [0..<length xs] xs) ([0..<length xs] ! i) = Some (xs ! i)"
    by (rule map_of_zip_nth) (use i in simp_all)
  with i show ?thesis by (simp add: enumerate_eq_zip)
qed

lemma id_to_img_map_lookup:
  "i < length xs \<Longrightarrow> map_of (dict_of (enumerate 0 xs)) i = Some (xs ! i)"
  by (simp add: dict_of_distinct map_of_enumerate)

lemma list_getitem_nat: "i < length xs \<Longrightarrow> list_getitem xs (int i) = Inr (xs ! i)"
  by (simp add: list_getitem_def)

text \<open>
  Claim C7. In a dataset that was built from a split file with the text \<open>content\<close>, the
  identifier list is the list of the lines of the text (the lines, put together again,
  are the text after newline translation), each stripped of surrounding whitespace,
  sorted in the lexicographic order of strings: it is sorted, it has the same elements
  with the same multiplicities as the stripped lines, so a duplicate line stays a
  duplicate, and the sample count is the number of lines. For every index \<open>i\<close> below the
  sample count, the reverse lookup table \<open>id_to_img_map\<close> and the indexing of both
  accessors resolve \<open>i\<close> to the \<open>i\<close>-th identifier of this list.
\<close>

theorem ids_sorted_stripped_lines:
  assumes "init fs tr = Inr ds"
  shows "\<exists>content. split_file fs = Some content \<and>
     concat (readlines content) = universal_newlines content \<and>
     ids ds = sort (map strip (readlines content)) \<and>
     sorted (ids ds) \<and>
     mset (ids ds) = mset (map strip (readlines content)) \<and>
     len ds = length (readlines content) \<and>
     (\<forall>i < len ds.
        map_of (id_to_img_map ds) i = Some (ids ds ! i) \<and>
        list_getitem (ids ds) (int i) = Inr (ids ds ! i) \<and>
        getitem fs ds (int i) =
          bind (open_file (image_files fs (ids ds ! i))) (\<lambda>img.
          bind (dict_getitem KeyError (anns ds) (ids ds ! i)) (\<lambda>ann.
          make_sample ds img ann (int i))) \<and>
        get_img_info ds (int i) =
          bind (dict_getitem KeyError (anns ds) (ids ds ! i)) (\<lambda>ann. Inr (size_ann ann)))"
proof -
  from init_Inr[OF assms] obtain content where
    c: "split_file fs = Some content" "ids ds = sort (map strip (readlines content))"
    "id_to_img_map ds = dict_of (enumerate 0 (ids ds))"
    by blast
  have s: "sorted (ids ds)" unfolding c(2) by simp
  have m: "mset (ids ds) = mset (map strip (readlines content))" unfolding c(2) by simp
  have l: "len ds = length (readlines content)" by (simp add: len_def c(2))
  have "map_of (id_to_img_map ds) i = Some (ids ds ! i) \<and>
        list_getitem (ids ds) (int i) = Inr (ids ds ! i) \<and>
        getitem fs ds (int i) =
          bind (open_file (image_files fs (ids ds ! i))) (\<lambda>img.
          bind (dict_getitem KeyError (anns ds) (ids ds ! i)) (\<lambda>ann.
          make_sample ds img ann (int i))) \<and>
        get_img_info ds (int i) =
          bind (dict_getitem KeyError (anns ds) (ids ds ! i)) (\<lambda>ann. Inr (size_ann ann))"
    if "i < len ds" for i
  proof -
    from that have i: "i < length (ids ds)" by (simp add: len_def)
    from i have "map_of (id_to_img_map ds) i = Some (ids ds ! i)"
      unfolding c(3) by (rule id_to_img_map_lookup)
    moreover note g = list_getitem_nat[OF i]
    moreover from g have "getitem fs ds (int i) =
          bind (open_file (image_files fs (ids ds ! i))) (\<lambda>img.
          bind (dict_getitem KeyError (anns ds) (ids ds ! i)) (\<lambda>ann.
          make_sample ds img ann (int i)))"
      by (simp add: getitem_def)
    moreover from g have "get_img_info ds (int i) =
          bind (dict_getitem KeyError (anns ds) (ids ds ! i)) (\<lambda>ann. Inr (size_ann ann))"
      by (simp add: get_img_info_def)
    ultimately show ?thesis by simp
  qed
  with c(1,2) s m l readlines_concat[of content] show ?thesis by blast
qed

theorem ids_sorted_stripped_lines_witness:
  "init example_fs None = Inr example_ds \<and>
   split_file example_fs = Some example_split \<and>
   map strip (readlines example_split) = [''0002'', ''0001'', ''0002''] \<and>
   ids example_ds = [''0001'', ''0002'', ''0002''] \<and>
   sorted (ids example_ds) \<and> len example_ds = 3 \<and>
   map_of (id_to_img_map example_ds) 2 = Some ''0002'' \<and>
   list_getitem (ids example_ds) (int 2) = Inr ''0002''"
proof -
  have sf: "split_file example_fs = Some example_split" by (simp add: example_fs_def)
  have rl: "map strip (readlines example_split) = [''0002'', ''0001'', ''0002'']" by code_simp
  from ids_sorted_stripped_lines[OF example_init] sf obtain
    a: "ids example_ds = sort (map strip (readlines example_split))"
    and b: "sorted (ids example_ds)"
    and c: "len example_ds = length (readlines example_split)"
    and d: "\<forall>i < len example_ds.
        map_of (id_to_img_map example_ds) i = Some (ids example_ds ! i) \<and>
        list_getitem (ids example_ds) (int i) = Inr (ids example_ds ! i)"
    by auto
  from c rl have n: "len example_ds = 3" by (metis length_map length_Cons list.size(3) numeral_3_eq_3)
  from a have i: "ids example_ds = [''0001'', ''0002'', ''0002'']" by (simp only: example_ids)
  from d[rule_format, of 2] n
  have "map_of (id_to_img_map example_ds) 2 = Some (ids example_ds ! 2) \<and>
        list_getitem (ids example_ds) (int 2) = Inr (ids example_ds ! 2)"
    by simp
  with i have "map_of (id_to_img_map example_ds) 2 = Some ''0002'' \<and>
        list_getitem (ids example_ds) (int 2) = Inr ''0002''"
    by simp
  with example_init sf rl i b n show ?thesis by blast
qed

section \<open>The accessors\<close>

lemma annotation_record_size:
  assumes "annotation_record x = Inr ann"
  shows "\<exists>parsed data. recursive_parse_xml_to_dict x = Inr parsed \<and>
     subscript parsed ''annotation'' = Inr data \<and> subscript data ''size'' = Inr (size_ann ann)"
proof -
  from assms obtain parsed data where
    p: "recursive_parse_xml_to_dict x = Inr parsed" "subscript parsed ''annotation'' = Inr data"
    "record_of_data data = Inr ann"
    unfolding annotation_record_def by (auto simp: bind_eq_Inr)
  from record_of_data_Inr[OF p(3)] p(1,2) show ?thesis by blast
qed

text \<open>
  Claim C8. In a dataset that was built, for every index \<open>i\<close> from 0 up to the sample
  count, both accessors look up one and the same annotation record, the record of the
  \<open>i\<close>-th identifier: \<open>get_img_info\<close> returns its \<open>size\<close> entry, which is the \<open>size\<close>
  entry of the parsed annotation file, and \<open>getitem\<close> builds its sample from this record.
  \<open>get_img_info\<close> reads the dataset only; it opens no image and clips nothing, so it
  returns the size even when the image file is missing and \<open>getitem\<close> fails.
\<close>

theorem get_img_info_is_record_size:
  assumes "init fs tr = Inr ds" and "0 \<le> i" and "i < int (len ds)"
  shows "\<exists>x ann parsed data.
     annotation_files fs (ids ds ! nat i) = Some x \<and>
     recursive_parse_xml_to_dict x = Inr parsed \<and>
     subscript parsed ''annotation'' = Inr data \<and>
     subscript data ''size'' = Inr (size_ann ann) \<and>
     dict_getitem KeyError (anns ds) (ids ds ! nat i) = Inr ann \<and>
     get_img_info ds i = Inr (size_ann ann) \<and>
     getitem fs ds i =
       bind (open_file (image_files fs (ids ds ! nat i))) (\<lambda>img. make_sample ds img ann i) \<and>
     (image_files fs (ids ds ! nat i) = None \<longrightarrow> getitem fs ds i = Inl FileNotFoundError)"
proof -
  from assms(2,3) have n: "nat i < length (ids ds)" by (simp add: len_def)
  then have m: "ids ds ! nat i \<in> set (ids ds)" by simp
  from assms(2,3) have g: "list_getitem (ids ds) i = Inr (ids ds ! nat i)"
    by (simp add: list_getitem_def len_def)
  from init_Inr[OF assms(1)] have b: "build_anns fs [] (ids ds) = Inr (anns ds)" by blast
  from build_anns_Inr[OF b m] obtain x ann where
    xa: "annotation_files fs (ids ds ! nat i) = Some x" "annotation_record x = Inr ann"
    "map_of (anns ds) (ids ds ! nat i) = Some ann"
    by blast
  from annotation_record_size[OF xa(2)] obtain parsed data where
    pd: "recursive_parse_xml_to_dict x = Inr parsed" "subscript parsed ''annotation'' = Inr data"
    "subscript data ''size'' = Inr (size_ann ann)"
    by blast
  from xa(3) have d: "dict_getitem KeyError (anns ds) (ids ds ! nat i) = Inr ann"
    by (simp add: dict_getitem_def)
  from g d have i: "get_img_info ds i = Inr (size_ann ann)" by (simp add: get_img_info_def)
  from g d have s: "getitem fs ds i =
       bind (open_file (image_files fs (ids ds ! nat i))) (\<lambda>img. make_sample ds img ann i)"
    by (cases "open_file (image_files fs (ids ds ! nat i))") (simp_all add: getitem_def)
  then have f: "image_files fs (ids ds ! nat i) = None \<longrightarrow> getitem fs ds i = Inl FileNotFoundError"
    by (simp add: open_file_def)
  show ?thesis
    by (intro exI[of _ x] exI[of _ ann] exI[of _ parsed] exI[of _ data] conjI xa(1) pd d i s f)
qed

theorem get_img_info_is_record_size_witness:
  "init example_fs None = Inr example_ds \<and> (0::int) \<le> 1 \<and> 1 < int (len example_ds) \<and>
   get_img_info example_ds 1 = Inr (Dict [(''width'', Str ''100''), (''height'', Str ''100'')]) \<and>
   (\<exists>ann. dict_getitem KeyError (anns example_ds) ''0002'' = Inr ann \<and>
      get_img_info example_ds 1 = Inr (size_ann ann) \<and>
      getitem example_fs example_ds 1 =
        bind (open_file (image_files example_fs ''0002''))
          (\<lambda>img. make_sample example_ds img ann 1))"
proof -
  have h2: "(0::int) \<le> 1" by simp
  have h3: "1 < int (len example_ds)" by (simp add: len_def example_ds_def)
  have i: "ids example_ds ! nat 1 = ''0002''" by (simp add: example_ds_def)
  have a: "dict_getitem KeyError (anns example_ds) ''0002'' =
     Inr \<lparr>boxes = [], labels = [],
          size_ann = Dict [(''width'', Str ''100''), (''height'', Str ''100'')]\<rparr>"
    by (simp add: example_ds_def dict_getitem_def)
  from get_img_info_is_record_size[OF example_init h2 h3] obtain ann where
    r: "dict_getitem KeyError (anns example_ds) ''0002'' = Inr ann"
    "get_img_info example_ds 1 = Inr (size_ann ann)"
    "getitem example_fs example_ds 1 =
        bind (open_file (image_files example_fs ''0002''))
          (\<lambda>img. make_sample example_ds img ann 1)"
    unfolding i by blast
  from r(1,2) a have "get_img_info example_ds 1 =
      Inr (Dict [(''width'', Str ''100''), (''height'', Str ''100'')])"
    by auto
  with example_init h2 h3 r show ?thesis by blast
qed

lemma for_each_Inl: "for_each f xs = Inl e \<Longrightarrow> \<exists>x \<in> set xs. f x = Inl e"
proof (induction xs)
  case Nil
  then show ?case by simp
next
  case (Cons x xs)
  then show ?case
    by (cases "f x"; cases "for_each f xs") simp_all
qed

lemma make_sample_no_IndexError: "make_sample ds img ann index \<noteq> Inl IndexError"
proof
  assume a: "make_sample ds img ann index = Inl IndexError"
  show False
  proof (cases "as_tensor (boxes ann)")
    case (Inl e)
    then have "e = ValueError_tensor"
      by (auto simp: as_tensor_def split: list.splits if_splits)
    with a Inl show False by (simp add: make_sample_def)
  next
    case t: (Inr t)
    show False
    proof (cases "reshape_rows_of_4 t")
      case (Inl e)
      then have "e = RuntimeError_reshape"
        by (auto simp: reshape_rows_of_4_def split: if_splits)
      with a t Inl show False by (simp add: make_sample_def)
    next
      case b: (Inr b)
      show False
      proof (cases "BoxList b (img_size img) XYXY")
        case (Inl e)
        then have "e = ValueError_boxlist" by (auto simp: BoxList_def split: if_splits)
        with a t b Inl show False by (simp add: make_sample_def)
      next
        case bl: (Inr bl)
        show False
        proof (cases "for_each (dict_getitem KeyError_label (json_category_id_to_contiguous_id ds)) (labels ann)")
          case (Inl e)
          from for_each_Inl[OF this] have "e \<noteq> IndexError"
            by (auto simp: dict_getitem_def split: option.splits)
          with a t b bl Inl show False by (simp add: make_sample_def)
        next
          case (Inr classes)
          with a t b bl show False by (simp add: make_sample_def Let_def)
        qed
      qed
    qed
  qed
qed

lemma make_sample_index:
  "make_sample ds img ann i =
     (case make_sample ds img ann j of Inl e \<Rightarrow> Inl e | Inr s \<Rightarrow> Inr (fst s, fst (snd s), i))"
  by (simp add: make_sample_def bind_def Let_def split: sum.splits)

lemma getitem_resolved:
  "list_getitem (ids ds) index = Inr img_id \<Longrightarrow>
     getitem fs ds index =
       bind (open_file (image_files fs img_id)) (\<lambda>img.
       bind (dict_getitem KeyError (anns ds) img_id) (\<lambda>ann. make_sample ds img ann index))"
  by (simp add: getitem_def)

text \<open>
  Claim C9. For a dataset with \<open>n\<close> samples and an index from \<open>-n\<close> to \<open>-1\<close>, both
  accessors resolve the index to the identifier at position \<open>n + index\<close> and work on
  its image and its record: the metadata accessor returns the \<open>size\<close> entry of the
  record stored under that identifier, and the sample accessor returns the sample made
  from the image file and the record of that identifier, with the index it was called
  with in the third place. In a dataset that was built, that record is there and is the
  record of the identifier's annotation file. Hence each accessor returns at \<open>index\<close>
  what it returns at \<open>n + index\<close>, up to the echoed index. An index below \<open>-n\<close> or from
  \<open>n\<close> on makes both accessors raise \<^verbatim>\<open>IndexError\<close>, and no index from \<open>-n\<close> up to
  \<open>n\<close> does.
\<close>

theorem negative_index_wraps:
  "(- int (len ds) \<le> index \<and> index < 0 \<longrightarrow>
      list_getitem (ids ds) index = Inr (ids ds ! nat (int (len ds) + index)) \<and>
      getitem fs ds index =
        bind (open_file (image_files fs (ids ds ! nat (int (len ds) + index)))) (\<lambda>img.
        bind (dict_getitem KeyError (anns ds) (ids ds ! nat (int (len ds) + index))) (\<lambda>ann.
        make_sample ds img ann index)) \<and>
      get_img_info ds index =
        bind (dict_getitem KeyError (anns ds) (ids ds ! nat (int (len ds) + index)))
          (\<lambda>ann. Inr (size_ann ann)) \<and>
      (\<forall>ann. map_of (anns ds) (ids ds ! nat (int (len ds) + index)) = Some ann \<longrightarrow>
         get_img_info ds index = Inr (size_ann ann) \<and>
         (\<forall>img. image_files fs (ids ds ! nat (int (len ds) + index)) = Some img \<longrightarrow>
            getitem fs ds index = make_sample ds img ann index)) \<and>
      (\<forall>tr. init fs tr = Inr ds \<longrightarrow>
         (\<exists>x ann. annotation_files fs (ids ds ! nat (int (len ds) + index)) = Some x \<and>
            annotation_record x = Inr ann \<and>
            map_of (anns ds) (ids ds ! nat (int (len ds) + index)) = Some ann \<and>
            get_img_info ds index = Inr (size_ann ann))) \<and>
      getitem fs ds index =
        (case getitem fs ds (int (len ds) + index) of
           Inl e \<Rightarrow> Inl e | Inr s \<Rightarrow> Inr (fst s, fst (snd s), index)) \<and>
      get_img_info ds index = get_img_info ds (int (len ds) + index)) \<and>
   (index < - int (len ds) \<or> int (len ds) \<le> index \<longrightarrow>
      getitem fs ds index = Inl IndexError \<and> get_img_info ds index = Inl IndexError) \<and>
   (- int (len ds) \<le> index \<and> index < int (len ds) \<longrightarrow>
      getitem fs ds index \<noteq> Inl IndexError \<and> get_img_info ds index \<noteq> Inl IndexError)"
proof (intro conjI impI allI)
  assume r: "- int (len ds) \<le> index \<and> index < 0"
  let ?j = "int (len ds) + index"
  let ?id = "ids ds ! nat ?j"
  from r show g: "list_getitem (ids ds) index = Inr ?id"
    by (simp add: list_getitem_def len_def)
  from r have g': "list_getitem (ids ds) ?j = Inr ?id"
    by (simp add: list_getitem_def len_def)
  from r have "nat ?j < length (ids ds)" unfolding len_def by linarith
  then have m: "?id \<in> set (ids ds)" by (rule nth_mem)
  show gi: "getitem fs ds index =
        bind (open_file (image_files fs ?id)) (\<lambda>img.
        bind (dict_getitem KeyError (anns ds) ?id) (\<lambda>ann. make_sample ds img ann index))"
    by (rule getitem_resolved[OF g])
  from g show gm: "get_img_info ds index =
        bind (dict_getitem KeyError (anns ds) ?id) (\<lambda>ann. Inr (size_ann ann))"
    by (simp add: get_img_info_def)
  show "getitem fs ds index =
        (case getitem fs ds ?j of Inl e \<Rightarrow> Inl e | Inr s \<Rightarrow> Inr (fst s, fst (snd s), index))"
    unfolding getitem_resolved[OF g] getitem_resolved[OF g']
    by (cases "open_file (image_files fs ?id)"; cases "dict_getitem KeyError (anns ds) ?id")
       (simp_all add: make_sample_index[of ds _ _ index ?j])
  from g g' show "get_img_info ds index = get_img_info ds ?j"
    by (simp add: get_img_info_def)
  {
    fix ann
    assume a: "map_of (anns ds) ?id = Some ann"
    then show "get_img_info ds index = Inr (size_ann ann)"
      unfolding gm by (simp add: dict_getitem_def)
    fix img
    assume "image_files fs ?id = Some img"
    with a show "getitem fs ds index = make_sample ds img ann index"
      unfolding gi by (simp add: dict_getitem_def open_file_def)
  }
  {
    fix tr
    assume "init fs tr = Inr ds"
    from init_Inr[OF this] have b: "build_anns fs [] (ids ds) = Inr (anns ds)" by blast
    from build_anns_Inr[OF b m] obtain x ann where
      xa: "annotation_files fs ?id = Some x" "annotation_record x = Inr ann"
      "map_of (anns ds) ?id = Some ann"
      by blast
    from xa(3) have "get_img_info ds index = Inr (size_ann ann)"
      unfolding gm by (simp add: dict_getitem_def)
    with xa show "\<exists>x ann. annotation_files fs ?id = Some x \<and> annotation_record x = Inr ann \<and>
            map_of (anns ds) ?id = Some ann \<and> get_img_info ds index = Inr (size_ann ann)"
      by blast
  }
next
  assume "index < - int (len ds) \<or> int (len ds) \<le> index"
  then have "list_getitem (ids ds) index = Inl IndexError"
    by (auto simp: list_getitem_def len_def)
  then show "getitem fs ds index = Inl IndexError" "get_img_info ds index = Inl IndexError"
    by (simp_all add: getitem_def get_img_info_def)
next
  assume "- int (len ds) \<le> index \<and> index < int (len ds)"
  then have "\<exists>img_id. list_getitem (ids ds) index = Inr img_id"
    by (cases "0 \<le> index") (simp_all add: list_getitem_def len_def)
  then obtain img_id where g: "list_getitem (ids ds) index = Inr img_id" ..
  show "getitem fs ds index \<noteq> Inl IndexError"
    unfolding getitem_resolved[OF g]
    by (cases "image_files fs img_id"; cases "map_of (anns ds) img_id")
       (simp_all add: open_file_def dict_getitem_def make_sample_no_IndexError)
  from g show "get_img_info ds index \<noteq> Inl IndexError"
    by (cases "map_of (anns ds) img_id") (simp_all add: get_img_info_def dict_getitem_def)
qed

theorem negative_index_wraps_witness:
  "init example_fs None = Inr example_ds \<and>
   - int (len example_ds) \<le> - 1 \<and> (- 1 :: int) < 0 \<and>
   list_getitem (ids example_ds) (- 1) = Inr ''0002'' \<and>
   list_getitem (ids example_ds) (- 3) = Inr ''0001'' \<and>
   get_img_info example_ds (- 1) =
     Inr (Dict [(''width'', Str ''100''), (''height'', Str ''100'')]) \<and>
   getitem example_fs example_ds (- 3) =
     Inr (\<lparr>img_size = (100, 100)\<rparr>,
          \<lparr>bbox = \<lparr>shape = [1, 4], elems = [10, 20, 30, 40]\<rparr>, size_bl = (100, 100),
            mode_bl = XYXY, extra_fields = [(''labels'', [7])]\<rparr>, - 3) \<and>
   getitem example_fs example_ds (- 1) =
     Inr (\<lparr>img_size = (100, 100)\<rparr>,
          \<lparr>bbox = \<lparr>shape = [0, 4], elems = []\<rparr>, size_bl = (100, 100),
            mode_bl = XYXY, extra_fields = [(''labels'', [])]\<rparr>, - 1) \<and>
   get_img_info example_ds (- 1) = get_img_info example_ds 2 \<and>
   getitem example_fs example_ds (- 1) =
     (case getitem example_fs example_ds 2 of
        Inl e \<Rightarrow> Inl e | Inr s \<Rightarrow> Inr (fst s, fst (snd s), - 1)) \<and>
   getitem example_fs example_ds 3 = Inl IndexError \<and>
   get_img_info example_ds (- 4) = Inl IndexError \<and>
   getitem example_fs example_ds (- 3) \<noteq> Inl IndexError"
proof -
  have n: "int (len example_ds) = 3" by (simp add: len_def example_ds_def)
  have i2: "ids example_ds ! nat 2 = ''0002''" by (simp add: example_ds_def)
  have i0: "ids example_ds ! nat 0 = ''0001''" by (simp add: example_ds_def)
  have a2: "map_of (anns example_ds) ''0002'' = Some \<lparr>boxes = [], labels = [],
      size_ann = Dict [(''width'', Str ''100''), (''height'', Str ''100'')]\<rparr>"
    by (simp add: example_ds_def)
  have a0: "map_of (anns example_ds) ''0001'' = Some \<lparr>boxes = [[10, 20, 30, 40]], labels = [6],
      size_ann = Dict [(''width'', Str ''100''), (''height'', Str ''100'')]\<rparr>"
    by (simp add: example_ds_def)
  have f2: "image_files example_fs ''0002'' = Some \<lparr>img_size = (100, 100)\<rparr>"
    by (simp add: example_fs_def)
  have f0: "image_files example_fs ''0001'' = Some \<lparr>img_size = (100, 100)\<rparr>"
    by (simp add: example_fs_def)
  have m0: "make_sample example_ds \<lparr>img_size = (100, 100)\<rparr>
      \<lparr>boxes = [[10, 20, 30, 40]], labels = [6],
        size_ann = Dict [(''width'', Str ''100''), (''height'', Str ''100'')]\<rparr> (- 3) =
     Inr (\<lparr>img_size = (100, 100)\<rparr>,
          \<lparr>bbox = \<lparr>shape = [1, 4], elems = [10, 20, 30, 40]\<rparr>, size_bl = (100, 100),
            mode_bl = XYXY, extra_fields = [(''labels'', [7])]\<rparr>, - 3)"
    by code_simp
  have m2: "make_sample example_ds \<lparr>img_size = (100, 100)\<rparr>
      \<lparr>boxes = [], labels = [],
        size_ann = Dict [(''width'', Str ''100''), (''height'', Str ''100'')]\<rparr> (- 1) =
     Inr (\<lparr>img_size = (100, 100)\<rparr>,
          \<lparr>bbox = \<lparr>shape = [0, 4], elems = []\<rparr>, size_bl = (100, 100),
            mode_bl = XYXY, extra_fields = [(''labels'', [])]\<rparr>, - 1)"
    by code_simp
  have r1: "- int (len example_ds) \<le> - 1 \<and> (- 1 :: int) < 0" by (simp add: n)
  have r3: "- int (len example_ds) \<le> - 3 \<and> (- 3 :: int) < 0" by (simp add: n)
  have j1: "nat (int (len example_ds) + - 1) = nat 2" by (simp add: n)
  have j3: "nat (int (len example_ds) + - 3) = nat 0" by (simp add: n)
  have k1: "int (len example_ds) + - 1 = 2" by (simp add: n)
  note t1 = negative_index_wraps[of example_ds "- 1" example_fs, THEN conjunct1, rule_format, OF r1,
      unfolded j1 i2 k1]
  note t3 = negative_index_wraps[of example_ds "- 3" example_fs, THEN conjunct1, rule_format, OF r3,
      unfolded j3 i0]
  from t1 have l1: "list_getitem (ids example_ds) (- 1) = Inr ''0002''" by (elim conjE)
  from t3 have l3: "list_getitem (ids example_ds) (- 3) = Inr ''0001''" by (elim conjE)
  from t1 a2 have g1: "get_img_info example_ds (- 1) =
     Inr (Dict [(''width'', Str ''100''), (''height'', Str ''100'')])"
    by auto
  from t3 a0 f0 have s3: "getitem example_fs example_ds (- 3) =
     make_sample example_ds \<lparr>img_size = (100, 100)\<rparr>
      \<lparr>boxes = [[10, 20, 30, 40]], labels = [6],
        size_ann = Dict [(''width'', Str ''100''), (''height'', Str ''100'')]\<rparr> (- 3)"
    by auto
  from t1 a2 f2 have s1: "getitem example_fs example_ds (- 1) =
     make_sample example_ds \<lparr>img_size = (100, 100)\<rparr>
      \<lparr>boxes = [], labels = [],
        size_ann = Dict [(''width'', Str ''100''), (''height'', Str ''100'')]\<rparr> (- 1)"
    by auto
  from t1 have e1: "get_img_info example_ds (- 1) = get_img_info example_ds 2" by (elim conjE)
  from t1 have c1: "getitem example_fs example_ds (- 1) =
     (case getitem example_fs example_ds 2 of
        Inl e \<Rightarrow> Inl e | Inr s \<Rightarrow> Inr (fst s, fst (snd s), - 1))"
    by (elim conjE)
  from negative_index_wraps[of example_ds 3 example_fs]
  have o3: "getitem example_fs example_ds 3 = Inl IndexError" unfolding n by simp
  from negative_index_wraps[of example_ds "- 4" example_fs]
  have o4: "get_img_info example_ds (- 4) = Inl IndexError" unfolding n by simp
  have "getitem example_fs example_ds (- 3) \<noteq> Inl IndexError"
    unfolding s3 m0 by simp
  with example_init r1 l1 l3 g1 s3[unfolded m0] s1[unfolded m2] e1 c1 o3 o4
  show ?thesis by (intro conjI) simp_all
qed

section \<open>A sample without boxes\<close>

lemma empty_sample:
  assumes "boxes ann = []" and "labels ann = []"
  shows "make_sample ds img ann index =
     Inr (fst (apply_transforms (transforms ds)
            (img, \<lparr>bbox = \<lparr>shape = [0, 4], elems = []\<rparr>, size_bl = img_size img,
                   mode_bl = XYXY, extra_fields = [(''labels'', [])]\<rparr>)),
          snd (apply_transforms (transforms ds)
            (img, \<lparr>bbox = \<lparr>shape = [0, 4], elems = []\<rparr>, size_bl = img_size img,
                   mode_bl = XYXY, extra_fields = [(''labels'', [])]\<rparr>)),
          index)"
  using assms
  by (simp add: make_sample_def as_tensor_def reshape_rows_of_4_def BoxList_def convert_def
      add_field_def clip_to_image_def tensor_of_rows_def select_def Let_def)

text \<open>
  Claim C4. When the index resolves to an identifier whose image file is there and whose
  annotation record has empty \<open>boxes\<close> and \<open>labels\<close>, the sample accessor returns and
  raises nothing: the empty list becomes a tensor of shape \<open>[0]\<close>, the reshape of line 77
  gives it the shape \<open>[0, 4]\<close>, which the box structure accepts, and the target built from
  it has no rows, rows of width four, and an empty \<open>labels\<close> field. This target is what
  is returned when no transform is configured, and what the transform receives
  otherwise.
\<close>

theorem empty_record_gives_empty_target:
  assumes "list_getitem (ids ds) index = Inr img_id" and "image_files fs img_id = Some img"
    and "map_of (anns ds) img_id = Some ann" and "boxes ann = []" and "labels ann = []"
  shows "(\<exists>image target. getitem fs ds index = Inr (image, target, index) \<and>
            (image, target) = apply_transforms (transforms ds)
               (img, \<lparr>bbox = \<lparr>shape = [0, 4], elems = []\<rparr>, size_bl = img_size img,
                      mode_bl = XYXY, extra_fields = [(''labels'', [])]\<rparr>)) \<and>
         (transforms ds = None \<longrightarrow>
            getitem fs ds index =
              Inr (img, \<lparr>bbox = \<lparr>shape = [0, 4], elems = []\<rparr>, size_bl = img_size img,
                         mode_bl = XYXY, extra_fields = [(''labels'', [])]\<rparr>, index))"
proof -
  from assms(1,2,3) have g: "getitem fs ds index = make_sample ds img ann index"
    by (simp add: getitem_def open_file_def dict_getitem_def)
  show ?thesis unfolding g empty_sample[OF assms(4,5)]
    by (auto simp: apply_transforms_def)
qed

theorem empty_record_gives_empty_target_witness:
  "init example_fs None = Inr example_ds \<and>
   list_getitem (ids example_ds) 1 = Inr ''0002'' \<and>
   image_files example_fs ''0002'' = Some \<lparr>img_size = (100, 100)\<rparr> \<and>
   map_of (anns example_ds) ''0002'' = Some \<lparr>boxes = [], labels = [],
      size_ann = Dict [(''width'', Str ''100''), (''height'', Str ''100'')]\<rparr> \<and>
   getitem example_fs example_ds 1 =
     Inr (\<lparr>img_size = (100, 100)\<rparr>,
          \<lparr>bbox = \<lparr>shape = [0, 4], elems = []\<rparr>, size_bl = (100, 100),
            mode_bl = XYXY, extra_fields = [(''labels'', [])]\<rparr>, 1)"
proof -
  have h1: "list_getitem (ids example_ds) 1 = Inr ''0002''"
    by (simp add: list_getitem_def example_ds_def)
  have h2: "image_files example_fs ''0002'' = Some \<lparr>img_size = (100, 100)\<rparr>"
    by (simp add: example_fs_def)
  have h3: "map_of (anns example_ds) ''0002'' = Some \<lparr>boxes = [], labels = [],
      size_ann = Dict [(''width'', Str ''100''), (''height'', Str ''100'')]\<rparr>"
    by (simp add: example_ds_def)
  have t: "transforms example_ds = None" by (simp add: example_ds_def)
  from empty_record_gives_empty_target[OF h1 h2 h3] t
  have "getitem example_fs example_ds 1 =
     Inr (\<lparr>img_size = (100, 100)\<rparr>,
          \<lparr>bbox = \<lparr>shape = [0, 4], elems = []\<rparr>, size_bl = (100, 100),
            mode_bl = XYXY, extra_fields = [(''labels'', [])]\<rparr>, 1)"
    by simp
  with example_init h1 h2 h3 show ?thesis by blast
qed


end
